theory Spec2Isabelle
  imports Main "HOL-Library.Word" "HOL-Library.AList"
begin

section \<open>Data model (internal/vstore/models.go)\<close>

text \<open>
  Go's \<open>int32\<close> is a 32-bit word read in two's complement (\<open>sint\<close>); \<open>++\<close> and
  \<open>--\<close> wrap. A \<open>time.Time\<close> is an instant, given as its \<open>UnixNano\<close> value.
\<close>

type_synonym int32 = "32 word"
type_synonym time = int

datatype RetrospectiveStatus =
    RetrospectiveStatusUnspecified
  | RetrospectiveStatusDraft
  | RetrospectiveStatusActive
  | RetrospectiveStatusVoting
  | RetrospectiveStatusDiscussing
  | RetrospectiveStatusCompleted

text \<open>The numeric value of each status constant.\<close>

fun status_value :: "RetrospectiveStatus \<Rightarrow> nat" where
  "status_value RetrospectiveStatusUnspecified = 0"
| "status_value RetrospectiveStatusDraft = 1"
| "status_value RetrospectiveStatusActive = 2"
| "status_value RetrospectiveStatusVoting = 3"
| "status_value RetrospectiveStatusDiscussing = 4"
| "status_value RetrospectiveStatusCompleted = 5"

datatype ParticipantRole =
    ParticipantRoleUnspecified
  | ParticipantRoleMember
  | ParticipantRoleFacilitator
  | ParticipantRoleObserver

record VotingConfig =
  MaxVotesPerUser :: int32
  AllowMultipleVotesPerItem :: bool
  AnonymousVoting :: bool

text \<open>
  The records carry the fields that the modelled operations read or write, and the
  identifying ones; pure payload (descriptions, template columns, soft-delete stamps)
  is left out. \<open>VotingConfig\<close> is a pointer in the source that
  \<open>RetrospectiveService.Create\<close> always sets, so it is a plain field here.
\<close>

record Retrospective =
  RetrospectiveID :: string
  TeamID :: string
  SprintName :: string
  Status :: RetrospectiveStatus
  VotingConfig :: VotingConfig
  CreatedBy :: string
  FacilitatorID :: string
  ItemCount :: int32
  ActionItemCount :: int32
  ParticipantCount :: int32
  CompletedAt :: time
  Created :: time
  Updated :: time

record RetrospectiveItem =
  ItemID :: string
  Item_RetrospectiveID :: string
  ColumnID :: string
  Content :: string
  VoteCount :: int32
  Position :: int32
  Item_Created :: time
  Item_Updated :: time

record Vote =
  VoteID :: string
  Vote_RetrospectiveID :: string
  Vote_ItemID :: string
  Vote_UserID :: string
  Vote_Created :: time

record Participant =
  ParticipantID :: string
  Participant_RetrospectiveID :: string
  UserID :: string
  DisplayName :: string
  AvatarURL :: string
  Role :: ParticipantRole
  IsOnline :: bool
  JoinedAt :: time
  LastActive :: time

section \<open>Errors (ToGRPCError)\<close>

datatype err =
    ErrNotFound
  | ErrAlreadyExists
  | ErrInvalidArgument
  | ErrPermissionDenied
  | ErrVoteLimitExceeded
  | ErrInvalidStatus

datatype code =
    NotFound | AlreadyExists | InvalidArgument | PermissionDenied | FailedPrecondition | Internal

text \<open>
  A gRPC status error: its code, and the sentinel error whose text starts the message
  (every error the modelled operations build wraps one of the six sentinels).
\<close>

record status_error =
  Code :: code
  Cause :: err

fun ToGRPCError :: "err \<Rightarrow> status_error" where
  "ToGRPCError ErrNotFound = \<lparr>Code = NotFound, Cause = ErrNotFound\<rparr>"
| "ToGRPCError ErrAlreadyExists = \<lparr>Code = AlreadyExists, Cause = ErrAlreadyExists\<rparr>"
| "ToGRPCError ErrInvalidArgument = \<lparr>Code = InvalidArgument, Cause = ErrInvalidArgument\<rparr>"
| "ToGRPCError ErrPermissionDenied = \<lparr>Code = PermissionDenied, Cause = ErrPermissionDenied\<rparr>"
| "ToGRPCError ErrVoteLimitExceeded = \<lparr>Code = FailedPrecondition, Cause = ErrVoteLimitExceeded\<rparr>"
| "ToGRPCError ErrInvalidStatus = \<lparr>Code = FailedPrecondition, Cause = ErrInvalidStatus\<rparr>"

section \<open>In-memory stores (the second part of internal/api/item_service.go)\<close>

text \<open>
  Each store is a Go map from an id to a record. It is an association list here, read
  with \<open>map_of\<close> and written with \<open>AList.update\<close> and \<open>AList.delete\<close>. A loop
  \<open>for _, v := range m\<close> visits the entries in list order: Go leaves that order open,
  and the theorems below hold for every list, so for every order.
\<close>

type_synonym 'v store = "(string \<times> 'v) list"

definition values_of :: "'v store \<Rightarrow> 'v list" where
  "values_of m = map snd m"

subsection \<open>InMemoryRetrospectiveStore\<close>

definition RetroStore_Get :: "Retrospective store \<Rightarrow> string \<Rightarrow> err + Retrospective" where
  "RetroStore_Get m rid = (case map_of m rid of Some retro \<Rightarrow> Inr retro | None \<Rightarrow> Inl ErrNotFound)"

definition RetroStore_Update :: "Retrospective store \<Rightarrow> Retrospective \<Rightarrow> time \<Rightarrow> Retrospective store" where
  "RetroStore_Update m retro now = AList.update (RetrospectiveID retro) (retro\<lparr>Updated := now\<rparr>) m"

subsection \<open>InMemoryItemStore\<close>

definition ItemStore_Get :: "RetrospectiveItem store \<Rightarrow> string \<Rightarrow> err + RetrospectiveItem" where
  "ItemStore_Get m iid = (case map_of m iid of Some item \<Rightarrow> Inr item | None \<Rightarrow> Inl ErrNotFound)"

definition ItemStore_ListByRetrospective :: "RetrospectiveItem store \<Rightarrow> string \<Rightarrow> RetrospectiveItem list" where
  "ItemStore_ListByRetrospective m retroID =
     filter (\<lambda>item. Item_RetrospectiveID item = retroID) (values_of m)"

definition IncrementVoteCount :: "RetrospectiveItem store \<Rightarrow> string \<Rightarrow> time \<Rightarrow> err + RetrospectiveItem store" where
  "IncrementVoteCount m itemID now =
     (case map_of m itemID of
        Some item \<Rightarrow> Inr (AList.update itemID (item\<lparr>VoteCount := VoteCount item + 1, Item_Updated := now\<rparr>) m)
      | None \<Rightarrow> Inl ErrNotFound)"

definition DecrementVoteCount :: "RetrospectiveItem store \<Rightarrow> string \<Rightarrow> time \<Rightarrow> err + RetrospectiveItem store" where
  "DecrementVoteCount m itemID now =
     (case map_of m itemID of
        Some item \<Rightarrow>
          Inr (AList.update itemID
                 ((if 0 < sint (VoteCount item) then item\<lparr>VoteCount := VoteCount item - 1\<rparr> else item)
                    \<lparr>Item_Updated := now\<rparr>) m)
      | None \<Rightarrow> Inl ErrNotFound)"

subsection \<open>InMemoryVoteStore\<close>

definition VoteStore_Create :: "Vote store \<Rightarrow> Vote \<Rightarrow> time \<Rightarrow> Vote store" where
  "VoteStore_Create m vote now = AList.update (VoteID vote) (vote\<lparr>Vote_Created := now\<rparr>) m"

definition VoteStore_Delete :: "Vote store \<Rightarrow> string \<Rightarrow> Vote store" where
  "VoteStore_Delete m voteID = AList.delete voteID m"

definition GetByUserAndItem :: "Vote store \<Rightarrow> string \<Rightarrow> string \<Rightarrow> string \<Rightarrow> err + Vote" where
  "GetByUserAndItem m retroID itemID userID =
     (case find (\<lambda>vote. Vote_RetrospectiveID vote = retroID \<and> Vote_ItemID vote = itemID
                          \<and> Vote_UserID vote = userID) (values_of m) of
        Some vote \<Rightarrow> Inr vote
      | None \<Rightarrow> Inl ErrNotFound)"

definition ListByUser :: "Vote store \<Rightarrow> string \<Rightarrow> string \<Rightarrow> Vote list" where
  "ListByUser m retroID userID =
     filter (\<lambda>vote. Vote_RetrospectiveID vote = retroID \<and> Vote_UserID vote = userID) (values_of m)"

definition CountByUser :: "Vote store \<Rightarrow> string \<Rightarrow> string \<Rightarrow> nat" where
  "CountByUser m retroID userID =
     length (filter (\<lambda>vote. Vote_RetrospectiveID vote = retroID \<and> Vote_UserID vote = userID) (values_of m))"

subsection \<open>InMemoryParticipantStore\<close>

text \<open>\<open>Join\<close> reads the clock twice, once for each stamp.\<close>

definition ParticipantStore_Join :: "Participant store \<Rightarrow> Participant \<Rightarrow> time \<Rightarrow> time \<Rightarrow> Participant store" where
  "ParticipantStore_Join m participant now_joined now_active =
     (let p = participant\<lparr>JoinedAt := now_joined, LastActive := now_active, IsOnline := True\<rparr>;
          key = Participant_RetrospectiveID p @ '':'' @ UserID p
      in AList.update key p m)"

definition ParticipantStore_Leave :: "Participant store \<Rightarrow> string \<Rightarrow> string \<Rightarrow> time \<Rightarrow> Participant store" where
  "ParticipantStore_Leave m retroID userID now =
     (let key = retroID @ '':'' @ userID
      in case map_of m key of
           Some p \<Rightarrow> AList.update key (p\<lparr>IsOnline := False, LastActive := now\<rparr>) m
         | None \<Rightarrow> m)"

definition ParticipantStore_Heartbeat :: "Participant store \<Rightarrow> string \<Rightarrow> string \<Rightarrow> time \<Rightarrow> Participant store" where
  "ParticipantStore_Heartbeat m retroID userID now =
     (let key = retroID @ '':'' @ userID
      in case map_of m key of
           Some p \<Rightarrow> AList.update key (p\<lparr>LastActive := now, IsOnline := True\<rparr>) m
         | None \<Rightarrow> m)"

definition ParticipantStore_Get :: "Participant store \<Rightarrow> string \<Rightarrow> string \<Rightarrow> err + Participant" where
  "ParticipantStore_Get m retroID userID =
     (case map_of m (retroID @ '':'' @ userID) of Some p \<Rightarrow> Inr p | None \<Rightarrow> Inl ErrNotFound)"

definition ParticipantStore_ListByRetrospective :: "Participant store \<Rightarrow> string \<Rightarrow> Participant list" where
  "ParticipantStore_ListByRetrospective m retroID =
     filter (\<lambda>p. Participant_RetrospectiveID p = retroID \<and> IsOnline p) (values_of m)"

section \<open>Event broadcaster (internal/api/realtime_service.go)\<close>

text \<open>The participant message sent to clients, and its conversion from the stored record.\<close>

record pb_Participant =
  pb_UserId :: string
  pb_DisplayName :: string
  pb_AvatarUrl :: string
  pb_JoinedAt :: time
  pb_Role :: ParticipantRole
  pb_LastActive :: time
  pb_IsOnline :: bool

definition convertVstoreParticipantToPb :: "Participant \<Rightarrow> pb_Participant" where
  "convertVstoreParticipantToPb p =
     \<lparr>pb_UserId = UserID p, pb_DisplayName = DisplayName p, pb_AvatarUrl = AvatarURL p,
      pb_JoinedAt = JoinedAt p, pb_Role = Role p, pb_LastActive = LastActive p,
      pb_IsOnline = IsOnline p\<rparr>"

record PresenceInfo =
  Presence_ParticipantCount :: int32
  Participants :: "pb_Participant list"

definition convertPresenceInfo :: "Participant list \<Rightarrow> PresenceInfo" where
  "convertPresenceInfo participants =
     \<lparr>Presence_ParticipantCount = word_of_nat (length participants),
      Participants = map convertVstoreParticipantToPb participants\<rparr>"

text \<open>
  The events of the stream. The item events carry the item, \<open>VoteCast\<close> the item id,
  the new vote count and the user id, the participant events the participant count, and
  \<open>StatusChanged\<close> the previous status, the new status and who changed it.
\<close>

datatype event_payload =
    ItemCreated RetrospectiveItem
  | ItemUpdated RetrospectiveItem
  | ItemDeleted string string
  | VoteCast string int32 string
  | ParticipantJoined pb_Participant int32
  | ParticipantLeft string int32
  | StatusChanged RetrospectiveStatus RetrospectiveStatus string

record RetrospectiveEvent =
  Event_RetrospectiveId :: string
  Timestamp :: time
  Event :: event_payload

text \<open>
  A buffered channel: the pending events, oldest first, and whether it has been closed.
  \<open>Subscribe\<close> makes every channel with capacity 100.
\<close>

record chan =
  buf :: "RetrospectiveEvent list"
  closed :: bool

definition chan_cap :: nat where
  "chan_cap = 100"

text \<open>
  Channels are compared by identity (\<open>sub == ch\<close>), so the broadcaster holds references:
  a channel reference is an index into \<open>heap\<close>, the channels made so far, and
  \<open>make\<close> appends to it. \<open>subscribers\<close> is the map from a retrospective id to its
  slice of channels; Go reads a missing key as the empty slice, as the function does.
\<close>

record EventBroadcaster =
  subscribers :: "string \<Rightarrow> nat list"
  heap :: "chan list"

datatype panic = SendOnClosedChannel | CloseOfClosedChannel

definition NewEventBroadcaster :: EventBroadcaster where
  "NewEventBroadcaster = \<lparr>subscribers = (\<lambda>_. []), heap = []\<rparr>"

definition Subscribe :: "EventBroadcaster \<Rightarrow> string \<Rightarrow> nat \<times> EventBroadcaster" where
  "Subscribe b retroID =
     (let ch = length (heap b)
      in (ch, b\<lparr>heap := heap b @ [\<lparr>buf = [], closed = False\<rparr>],
                 subscribers := (subscribers b)(retroID := subscribers b retroID @ [ch])\<rparr>))"

text \<open>
  \<open>close(ch)\<close>: closing a closed channel panics. Every reference the code holds comes
  from \<open>make\<close>, so one beyond the heap does not occur; the model leaves the heap as it
  is there, here and in \<open>try_send\<close>.
\<close>

definition close_chan :: "chan list \<Rightarrow> nat \<Rightarrow> panic + chan list" where
  "close_chan h ch =
     (if ch < length h \<and> closed (h ! ch) then Inl CloseOfClosedChannel
      else Inr (h[ch := (h ! ch)\<lparr>closed := True\<rparr>]))"

text \<open>
  The loop of \<open>Unsubscribe\<close> stops at the first index \<open>i\<close> with \<open>subs[i] == ch\<close>,
  stores \<open>append(subs[:i], subs[i+1:]...)\<close> and closes the channel; when no index
  matches, nothing happens.
\<close>

definition Unsubscribe :: "EventBroadcaster \<Rightarrow> string \<Rightarrow> nat \<Rightarrow> panic + EventBroadcaster" where
  "Unsubscribe b retroID ch =
     (let subs = subscribers b retroID;
          i = length (takeWhile (\<lambda>sub. sub \<noteq> ch) subs)
      in if i < length subs
         then (case close_chan (heap b) ch of
                 Inl p \<Rightarrow> Inl p
               | Inr h \<Rightarrow> Inr (b\<lparr>subscribers := (subscribers b)(retroID := take i subs @ drop (Suc i) subs),
                                  heap := h\<rparr>))
         else Inr b)"

text \<open>
  \<open>select { case ch <- event: default: }\<close>: the send happens when the buffer has room,
  the event is skipped when it is full, and a send on a closed channel panics.
\<close>

definition try_send :: "chan list \<Rightarrow> nat \<Rightarrow> RetrospectiveEvent \<Rightarrow> panic + chan list" where
  "try_send h ch event =
     (if ch < length h then
        (if closed (h ! ch) then Inl SendOnClosedChannel
         else if length (buf (h ! ch)) < chan_cap
              then Inr (h[ch := (h ! ch)\<lparr>buf := buf (h ! ch) @ [event]\<rparr>])
              else Inr h)
      else Inr h)"

fun send_all :: "chan list \<Rightarrow> nat list \<Rightarrow> RetrospectiveEvent \<Rightarrow> panic + chan list" where
  "send_all h [] event = Inr h"
| "send_all h (ch # chs) event =
     (case try_send h ch event of Inl p \<Rightarrow> Inl p | Inr h' \<Rightarrow> send_all h' chs event)"

definition Broadcast :: "EventBroadcaster \<Rightarrow> string \<Rightarrow> RetrospectiveEvent \<Rightarrow> panic + EventBroadcaster" where
  "Broadcast b retroID event =
     (case send_all (heap b) (subscribers b retroID) event of
        Inl p \<Rightarrow> Inl p
      | Inr h \<Rightarrow> Inr (b\<lparr>heap := h\<rparr>))"

section \<open>Service state\<close>

text \<open>The four stores shared by the services, and the global \<open>broadcaster\<close>.\<close>

record state =
  retroStore :: "Retrospective store"
  itemStore :: "RetrospectiveItem store"
  voteStore :: "Vote store"
  participantStore :: "Participant store"
  broadcaster :: EventBroadcaster

text \<open>
  \<open>getUserIDFromContext\<close> is a stub in the repository (``in production, extract from
  auth context''): it returns the constant below. Every operation takes the user id that
  the call resolves from its context as the argument \<open>userID\<close>, so the theorems hold
  for the stub and for any resolver.
\<close>

definition getUserIDFromContext :: string where
  "getUserIDFromContext = ''mock-user-id''"

section \<open>Voting service (internal/api/voting_service.go)\<close>

text \<open>
  \<open>CastVote\<close> takes, besides the request's two ids, what the call reads from its
  environment: the user id, the vote id that \<open>fmt.Sprintf("VOTE-%d",
  time.Now().UnixNano())\<close> yields, and the clock readings of \<open>voteStore.Create\<close> and
  \<open>IncrementVoteCount\<close>.
\<close>

definition CastVote ::
  "state \<Rightarrow> string \<Rightarrow> string \<Rightarrow> string \<Rightarrow> string \<Rightarrow> time \<Rightarrow> time \<Rightarrow> (status_error + unit) \<times> state" where
  "CastVote s userID retrospective_id item_id voteID now_created now_updated =
     (if retrospective_id = [] then (Inl (ToGRPCError ErrInvalidArgument), s)
      else if item_id = [] then (Inl (ToGRPCError ErrInvalidArgument), s)
      else (case RetroStore_Get (retroStore s) retrospective_id of
        Inl e \<Rightarrow> (Inl (ToGRPCError e), s)
      | Inr retro \<Rightarrow>
          if Status retro \<noteq> RetrospectiveStatusVoting \<and> Status retro \<noteq> RetrospectiveStatusActive
          then (Inl (ToGRPCError ErrInvalidStatus), s)
          else (case ItemStore_Get (itemStore s) item_id of
            Inl e \<Rightarrow> (Inl (ToGRPCError e), s)
          | Inr item \<Rightarrow>
              if Item_RetrospectiveID item \<noteq> retrospective_id
              then (Inl (ToGRPCError ErrInvalidArgument), s)
              else if \<not> isl (GetByUserAndItem (voteStore s) retrospective_id item_id userID)
                      \<and> \<not> AllowMultipleVotesPerItem (VotingConfig retro)
              then (Inl (ToGRPCError ErrAlreadyExists), s)
              else if sint (MaxVotesPerUser (VotingConfig retro))
                        \<le> sint (word_of_nat (CountByUser (voteStore s) retrospective_id userID) :: int32)
              then (Inl (ToGRPCError ErrVoteLimitExceeded), s)
              else
                let vote = \<lparr>VoteID = voteID, Vote_RetrospectiveID = retrospective_id,
                            Vote_ItemID = item_id, Vote_UserID = userID, Vote_Created = 0\<rparr>;
                    votes' = VoteStore_Create (voteStore s) vote now_created
                in (case IncrementVoteCount (itemStore s) item_id now_updated of
                     Inl e \<Rightarrow> (Inl (ToGRPCError e), s\<lparr>voteStore := VoteStore_Delete votes' voteID\<rparr>)
                   | Inr items' \<Rightarrow> (Inr (), s\<lparr>voteStore := votes', itemStore := items'\<rparr>)))))"

text \<open>
  \<open>RemoveVote\<close> ignores the result of \<open>DecrementVoteCount\<close>; the argument
  \<open>now_updated\<close> is the clock reading of that call.
\<close>

definition RemoveVote ::
  "state \<Rightarrow> string \<Rightarrow> string \<Rightarrow> string \<Rightarrow> time \<Rightarrow> (status_error + unit) \<times> state" where
  "RemoveVote s userID retrospective_id item_id now_updated =
     (if retrospective_id = [] then (Inl (ToGRPCError ErrInvalidArgument), s)
      else if item_id = [] then (Inl (ToGRPCError ErrInvalidArgument), s)
      else (case GetByUserAndItem (voteStore s) retrospective_id item_id userID of
        Inl e \<Rightarrow> (Inl (ToGRPCError ErrNotFound), s)
      | Inr vote \<Rightarrow>
          let votes' = VoteStore_Delete (voteStore s) (VoteID vote);
              items' = (case DecrementVoteCount (itemStore s) item_id now_updated of
                          Inl e \<Rightarrow> itemStore s
                        | Inr m \<Rightarrow> m)
          in (Inr (), s\<lparr>voteStore := votes', itemStore := items'\<rparr>)))"

record itemVote =
  itemID :: string
  voteCount :: int32

record VoteSummary =
  Summary_ItemId :: string
  Summary_VoteCount :: int32
  Rank :: int32
  CurrentUserVoted :: bool

record GetVoteSummaryResponse =
  Summaries :: "VoteSummary list"
  TotalVotes :: int32

text \<open>
  \<open>sort.Slice\<close> with \<open>less(i, j) = voteCount[i] > voteCount[j]\<close>: the counts end up
  in descending order. The order it leaves among equal counts is not specified;
  \<open>sort_key\<close> keeps them as they were.
\<close>

definition sort_by_votes :: "itemVote list \<Rightarrow> itemVote list" where
  "sort_by_votes ivs = sort_key (\<lambda>iv. - sint (voteCount iv)) ivs"

text \<open>
  The loop that fills \<open>rankMap\<close>: \<open>i\<close> is the loop index, and \<open>currentRank\<close> and
  \<open>lastVoteCount\<close> are the two variables it carries (initially 1 and -1).
\<close>

fun rank_loop ::
  "nat \<Rightarrow> itemVote list \<Rightarrow> (string \<rightharpoonup> int32) \<Rightarrow> int32 \<Rightarrow> int32 \<Rightarrow> (string \<rightharpoonup> int32)" where
  "rank_loop i [] rankMap currentRank lastVoteCount = rankMap"
| "rank_loop i (iv # ivs) rankMap currentRank lastVoteCount =
     (if voteCount iv \<noteq> lastVoteCount
      then rank_loop (Suc i) ivs (rankMap(itemID iv \<mapsto> word_of_nat (i + 1))) (word_of_nat (i + 1)) (voteCount iv)
      else rank_loop (Suc i) ivs (rankMap(itemID iv \<mapsto> currentRank)) currentRank lastVoteCount)"

text \<open>Reading a Go map at a missing key gives the zero value.\<close>

definition rank_lookup :: "(string \<rightharpoonup> int32) \<Rightarrow> string \<Rightarrow> int32" where
  "rank_lookup rankMap k = (case rankMap k of Some r \<Rightarrow> r | None \<Rightarrow> 0)"

definition GetVoteSummary :: "state \<Rightarrow> string \<Rightarrow> string \<Rightarrow> status_error + GetVoteSummaryResponse" where
  "GetVoteSummary s userID retrospective_id =
     (if retrospective_id = [] then Inl (ToGRPCError ErrInvalidArgument)
      else
        let items = ItemStore_ListByRetrospective (itemStore s) retrospective_id;
            userVotes = ListByUser (voteStore s) retrospective_id userID;
            userVotedItems = set (map Vote_ItemID userVotes);
            itemVotes = map (\<lambda>item. \<lparr>itemID = ItemID item, voteCount = VoteCount item\<rparr>) items;
            rankMap = rank_loop 0 (sort_by_votes itemVotes) Map.empty 1 (- 1)
        in Inr \<lparr>Summaries =
                  map (\<lambda>item. \<lparr>Summary_ItemId = ItemID item, Summary_VoteCount = VoteCount item,
                                Rank = rank_lookup rankMap (ItemID item),
                                CurrentUserVoted = (ItemID item \<in> userVotedItems)\<rparr>) items,
                TotalVotes = foldl (\<lambda>total item. total + VoteCount item) 0 items\<rparr>)"

record UserVoteSummary =
  Summary_UserId :: string
  VotesCast :: int32
  VotesRemaining :: int32
  VotedItemIds :: "string list"

text \<open>\<open>request_user_id\<close> is the request's \<open>UserId\<close> field; the context's user replaces it when empty.\<close>

definition GetUserVotes :: "state \<Rightarrow> string \<Rightarrow> string \<Rightarrow> string \<Rightarrow> status_error + UserVoteSummary" where
  "GetUserVotes s ctx_userID retrospective_id request_user_id =
     (if retrospective_id = [] then Inl (ToGRPCError ErrInvalidArgument)
      else
        let userID = (if request_user_id = [] then ctx_userID else request_user_id)
        in (case RetroStore_Get (retroStore s) retrospective_id of
             Inl e \<Rightarrow> Inl (ToGRPCError e)
           | Inr retro \<Rightarrow>
               let votes = ListByUser (voteStore s) retrospective_id userID;
                   votesCast = (word_of_nat (length votes) :: int32);
                   votesRemaining = MaxVotesPerUser (VotingConfig retro) - votesCast
               in Inr \<lparr>Summary_UserId = userID, VotesCast = votesCast,
                       VotesRemaining = (if sint votesRemaining < 0 then 0 else votesRemaining),
                       VotedItemIds = map Vote_ItemID votes\<rparr>))"


section \<open>Retrospective service: the status transitions\<close>

text \<open>
  The three transitions read the retrospective, check its status, write the new status
  and store the record; \<open>now\<close> is the clock reading of \<open>retroStore.Update\<close>, and
  \<open>Complete\<close> reads the clock once more for \<open>CompletedAt\<close>. None of them reads the
  user of the call.
\<close>

definition StartVoting :: "state \<Rightarrow> string \<Rightarrow> time \<Rightarrow> (status_error + unit) \<times> state" where
  "StartVoting s retrospective_id now =
     (case RetroStore_Get (retroStore s) retrospective_id of
        Inl e \<Rightarrow> (Inl (ToGRPCError e), s)
      | Inr retro \<Rightarrow>
          if Status retro \<noteq> RetrospectiveStatusActive \<and> Status retro \<noteq> RetrospectiveStatusDraft
          then (Inl (ToGRPCError ErrInvalidStatus), s)
          else (Inr (), s\<lparr>retroStore :=
                  RetroStore_Update (retroStore s) (retro\<lparr>Status := RetrospectiveStatusVoting\<rparr>) now\<rparr>))"

definition StartDiscussion :: "state \<Rightarrow> string \<Rightarrow> time \<Rightarrow> (status_error + unit) \<times> state" where
  "StartDiscussion s retrospective_id now =
     (case RetroStore_Get (retroStore s) retrospective_id of
        Inl e \<Rightarrow> (Inl (ToGRPCError e), s)
      | Inr retro \<Rightarrow>
          if Status retro \<noteq> RetrospectiveStatusVoting
          then (Inl (ToGRPCError ErrInvalidStatus), s)
          else (Inr (), s\<lparr>retroStore :=
                  RetroStore_Update (retroStore s) (retro\<lparr>Status := RetrospectiveStatusDiscussing\<rparr>) now\<rparr>))"

definition Complete :: "state \<Rightarrow> string \<Rightarrow> time \<Rightarrow> time \<Rightarrow> (status_error + unit) \<times> state" where
  "Complete s retrospective_id now_completed now =
     (case RetroStore_Get (retroStore s) retrospective_id of
        Inl e \<Rightarrow> (Inl (ToGRPCError e), s)
      | Inr retro \<Rightarrow>
          (Inr (), s\<lparr>retroStore :=
             RetroStore_Update (retroStore s)
               (retro\<lparr>Status := RetrospectiveStatusCompleted, CompletedAt := now_completed\<rparr>) now\<rparr>))"

section \<open>Realtime service: presence\<close>

record JoinRetrospectiveResponse =
  Presence :: PresenceInfo
  CurrentParticipant :: pb_Participant

text \<open>
  \<open>getUserNameFromContext\<close> is a stub like \<open>getUserIDFromContext\<close>; the name the
  call resolves is the argument \<open>userName\<close>.
\<close>

definition getUserNameFromContext :: string where
  "getUserNameFromContext = ''Mock User''"

text \<open>
  \<open>JoinRetrospective\<close>: the clock is read twice by \<open>participantStore.Join\<close>, once for
  the event's timestamp and once by \<open>retroStore.Update\<close>. A panic of \<open>Broadcast\<close>
  ends the call.
\<close>

definition JoinRetrospective ::
  "state \<Rightarrow> string \<Rightarrow> string \<Rightarrow> string \<Rightarrow> string \<Rightarrow> string \<Rightarrow> time \<Rightarrow> time \<Rightarrow> time \<Rightarrow> time
     \<Rightarrow> panic + (status_error + JoinRetrospectiveResponse) \<times> state" where
  "JoinRetrospective s userID userName retrospective_id display_name avatar_url
                     now_joined now_active now_event now_updated =
     (if retrospective_id = [] then Inr (Inl (ToGRPCError ErrInvalidArgument), s)
      else (case RetroStore_Get (retroStore s) retrospective_id of
        Inl e \<Rightarrow> Inr (Inl (ToGRPCError e), s)
      | Inr retro \<Rightarrow>
          let displayName = (if display_name = [] then userName else display_name);
              role = (if FacilitatorID retro = userID then ParticipantRoleFacilitator
                      else ParticipantRoleMember);
              participant = \<lparr>ParticipantID = retrospective_id @ '':'' @ userID,
                             Participant_RetrospectiveID = retrospective_id,
                             UserID = userID, DisplayName = displayName, AvatarURL = avatar_url,
                             Role = role, IsOnline = False, JoinedAt = 0, LastActive = 0\<rparr>;
              joined = participant\<lparr>JoinedAt := now_joined, LastActive := now_active, IsOnline := True\<rparr>;
              store' = ParticipantStore_Join (participantStore s) participant now_joined now_active;
              participants = ParticipantStore_ListByRetrospective store' retrospective_id;
              event = \<lparr>Event_RetrospectiveId = retrospective_id, Timestamp = now_event,
                       Event = ParticipantJoined (convertVstoreParticipantToPb joined)
                                 (word_of_nat (length participants))\<rparr>
          in (case Broadcast (broadcaster s) retrospective_id event of
                Inl p \<Rightarrow> Inl p
              | Inr b' \<Rightarrow>
                  Inr (Inr \<lparr>Presence = convertPresenceInfo participants,
                            CurrentParticipant = convertVstoreParticipantToPb joined\<rparr>,
                       s\<lparr>participantStore := store',
                         broadcaster := b',
                         retroStore := RetroStore_Update (retroStore s)
                           (retro\<lparr>ParticipantCount := word_of_nat (length participants)\<rparr>) now_updated\<rparr>))))"

text \<open>
  \<open>LeaveRetrospective\<close>: the clock is read by \<open>participantStore.Leave\<close>, for the
  event's timestamp and by \<open>retroStore.Update\<close>; the retrospective is looked up only
  after the broadcast, and a missing one is skipped.
\<close>

definition LeaveRetrospective ::
  "state \<Rightarrow> string \<Rightarrow> string \<Rightarrow> time \<Rightarrow> time \<Rightarrow> time \<Rightarrow> panic + (status_error + unit) \<times> state" where
  "LeaveRetrospective s userID retrospective_id now_active now_event now_updated =
     (if retrospective_id = [] then Inr (Inl (ToGRPCError ErrInvalidArgument), s)
      else
        let store' = ParticipantStore_Leave (participantStore s) retrospective_id userID now_active;
            participants = ParticipantStore_ListByRetrospective store' retrospective_id;
            event = \<lparr>Event_RetrospectiveId = retrospective_id, Timestamp = now_event,
                     Event = ParticipantLeft userID (word_of_nat (length participants))\<rparr>
        in (case Broadcast (broadcaster s) retrospective_id event of
              Inl p \<Rightarrow> Inl p
            | Inr b' \<Rightarrow>
                Inr (Inr (),
                     s\<lparr>participantStore := store',
                       broadcaster := b',
                       retroStore :=
                         (case RetroStore_Get (retroStore s) retrospective_id of
                            Inl e \<Rightarrow> retroStore s
                          | Inr retro \<Rightarrow>
                              RetroStore_Update (retroStore s)
                                (retro\<lparr>ParticipantCount := word_of_nat (length participants)\<rparr>)
                                now_updated)\<rparr>)))"

definition GetParticipants :: "state \<Rightarrow> string \<Rightarrow> status_error + PresenceInfo" where
  "GetParticipants s retrospective_id =
     (if retrospective_id = [] then Inl (ToGRPCError ErrInvalidArgument)
      else Inr (convertPresenceInfo
                  (ParticipantStore_ListByRetrospective (participantStore s) retrospective_id)))"

definition Heartbeat :: "state \<Rightarrow> string \<Rightarrow> string \<Rightarrow> time \<Rightarrow> (status_error + unit) \<times> state" where
  "Heartbeat s userID retrospective_id now =
     (if retrospective_id = [] then (Inl (ToGRPCError ErrInvalidArgument), s)
      else (Inr (), s\<lparr>participantStore :=
                      ParticipantStore_Heartbeat (participantStore s) retrospective_id userID now\<rparr>))"

text \<open>
  The two broadcast helpers for votes and status changes. They are defined in
  realtime\_service.go; no operation of the repository calls them.
\<close>

definition BroadcastVoteCast ::
  "EventBroadcaster \<Rightarrow> string \<Rightarrow> string \<Rightarrow> int32 \<Rightarrow> string \<Rightarrow> time \<Rightarrow> panic + EventBroadcaster" where
  "BroadcastVoteCast b retroID item_id newVoteCount userID now =
     Broadcast b retroID \<lparr>Event_RetrospectiveId = retroID, Timestamp = now,
                          Event = VoteCast item_id newVoteCount userID\<rparr>"

definition BroadcastStatusChanged ::
  "EventBroadcaster \<Rightarrow> string \<Rightarrow> RetrospectiveStatus \<Rightarrow> RetrospectiveStatus \<Rightarrow> string \<Rightarrow> time
     \<Rightarrow> panic + EventBroadcaster" where
  "BroadcastStatusChanged b retroID prevStatus newStatus changedBy now =
     Broadcast b retroID \<lparr>Event_RetrospectiveId = retroID, Timestamp = now,
                          Event = StatusChanged prevStatus newStatus changedBy\<rparr>"


section \<open>Notions used in the statements\<close>

text \<open>A vote record of the triple (retrospective, item, user).\<close>

definition vote_matches :: "string \<Rightarrow> string \<Rightarrow> string \<Rightarrow> Vote \<Rightarrow> bool" where
  "vote_matches rid iid uid vote \<longleftrightarrow>
     Vote_RetrospectiveID vote = rid \<and> Vote_ItemID vote = iid \<and> Vote_UserID vote = uid"

text \<open>
  What a Go map filled by the store methods looks like: one entry per key, and every
  record filed under its own id (\<open>s.votes[vote.VoteID] = vote\<close>).
\<close>

definition store_ok :: "('v \<Rightarrow> string) \<Rightarrow> 'v store \<Rightarrow> bool" where
  "store_ok key m \<longleftrightarrow> distinct (map fst m) \<and> (\<forall>(k, v) \<in> set m. key v = k)"

text \<open>
  The operations that change the state, as values, so that a sequence of calls is a list.
  Each carries the arguments of its call in the order of the modelled function. The
  three queries (\<open>GetVoteSummary\<close>, \<open>GetUserVotes\<close>, \<open>GetParticipants\<close>) change
  nothing and are left out. A panic ends the run.
\<close>

datatype op =
    CastVoteOp string string string string time time
  | RemoveVoteOp string string string time
  | StartVotingOp string time
  | StartDiscussionOp string time
  | CompleteOp string time time
  | JoinOp string string string string string time time time time
  | LeaveOp string string time time time
  | HeartbeatOp string string time
  | SubscribeOp string
  | UnsubscribeOp string nat

fun step :: "state \<Rightarrow> op \<Rightarrow> panic + state" where
  "step s (CastVoteOp u r i v t1 t2) = Inr (snd (CastVote s u r i v t1 t2))"
| "step s (RemoveVoteOp u r i t) = Inr (snd (RemoveVote s u r i t))"
| "step s (StartVotingOp r t) = Inr (snd (StartVoting s r t))"
| "step s (StartDiscussionOp r t) = Inr (snd (StartDiscussion s r t))"
| "step s (CompleteOp r t1 t2) = Inr (snd (Complete s r t1 t2))"
| "step s (JoinOp u n r d a t1 t2 t3 t4) = map_sum id snd (JoinRetrospective s u n r d a t1 t2 t3 t4)"
| "step s (LeaveOp u r t1 t2 t3) = map_sum id snd (LeaveRetrospective s u r t1 t2 t3)"
| "step s (HeartbeatOp u r t) = Inr (snd (Heartbeat s u r t))"
| "step s (SubscribeOp r) = Inr (s\<lparr>broadcaster := snd (Subscribe (broadcaster s) r)\<rparr>)"
| "step s (UnsubscribeOp r ch) = map_sum id (\<lambda>b. s\<lparr>broadcaster := b\<rparr>) (Unsubscribe (broadcaster s) r ch)"

fun run :: "state \<Rightarrow> op list \<Rightarrow> panic + state" where
  "run s [] = Inr s"
| "run s (x # xs) = (case step s x of Inl p \<Rightarrow> Inl p | Inr s' \<Rightarrow> run s' xs)"

text \<open>
  Two relations on retrospective stores: every record is filed under its own id, and
  every record of the first store is still in the second with a status that is the same
  or later in DRAFT, ACTIVE, VOTING, DISCUSSING, COMPLETED.
\<close>

definition coherent :: "Retrospective store \<Rightarrow> bool" where
  "coherent m \<longleftrightarrow> (\<forall>k r. map_of m k = Some r \<longrightarrow> RetrospectiveID r = k)"

definition forward :: "Retrospective store \<Rightarrow> Retrospective store \<Rightarrow> bool" where
  "forward m m' \<longleftrightarrow>
     (\<forall>k r. map_of m k = Some r \<longrightarrow>
        (\<exists>r'. map_of m' k = Some r' \<and> status_value (Status r) \<le> status_value (Status r')))"

text \<open>Readers for the concrete instances: a retrospective's status and completion time.\<close>

definition status_of :: "state \<Rightarrow> string \<Rightarrow> RetrospectiveStatus option" where
  "status_of s rid = map_option Status (map_of (retroStore s) rid)"

definition completed_at :: "state \<Rightarrow> string \<Rightarrow> time option" where
  "completed_at s rid = map_option CompletedAt (map_of (retroStore s) rid)"

text \<open>
  What \<open>Subscribe\<close> and \<open>Unsubscribe\<close> maintain of the broadcaster: a channel is
  registered once, under one retrospective, it has been made, and it is open.
\<close>

definition hub_ok :: "EventBroadcaster \<Rightarrow> bool" where
  "hub_ok b \<longleftrightarrow>
     (\<forall>rid. distinct (subscribers b rid))
   \<and> (\<forall>rid rid'. rid \<noteq> rid' \<longrightarrow> set (subscribers b rid) \<inter> set (subscribers b rid') = {})
   \<and> (\<forall>rid. \<forall>ch \<in> set (subscribers b rid). ch < length (heap b) \<and> \<not> closed (heap b ! ch))"

text \<open>
  The channels after an event has reached those of \<open>chs\<close> that have room: the event
  is appended to their buffers, and the full ones and all others are as before.
\<close>

definition deliver_to :: "nat list \<Rightarrow> RetrospectiveEvent \<Rightarrow> chan list \<Rightarrow> chan list" where
  "deliver_to chs event h =
     map (\<lambda>(ch, c). if ch \<in> set chs \<and> length (buf c) < chan_cap
                       then c\<lparr>buf := buf c @ [event]\<rparr> else c)
         (enumerate 0 h)"

text \<open>The broadcaster after \<open>Unsubscribe\<close> has removed and closed a channel.\<close>

definition unsubscribed :: "EventBroadcaster \<Rightarrow> string \<Rightarrow> nat \<Rightarrow> EventBroadcaster" where
  "unsubscribed b rid ch =
     b\<lparr>subscribers := (subscribers b)(rid := remove1 ch (subscribers b rid)),
       heap := (heap b)[ch := (heap b ! ch)\<lparr>closed := True\<rparr>]\<rparr>"

text \<open>Reader for the concrete instances: when a stored participant joined.\<close>

definition joined_at :: "state \<Rightarrow> string \<Rightarrow> string \<Rightarrow> time option" where
  "joined_at s rid uid = map_option JoinedAt (map_of (participantStore s) (rid @ '':'' @ uid))"

text \<open>Reader for the concrete instances: the two counts \<open>GetUserVotes\<close> reports for a user.\<close>

definition reported_votes :: "state \<Rightarrow> string \<Rightarrow> string \<Rightarrow> (int32 \<times> int32) option" where
  "reported_votes s rid uid =
     (case GetUserVotes s uid rid [] of
        Inl e \<Rightarrow> None
      | Inr summary \<Rightarrow> Some (VotesCast summary, VotesRemaining summary))"


text \<open>
  The position (from 0) of the first entry with vote count \<open>c\<close> in a list of entries:
  in the sorted list, where the tie group of \<open>c\<close> starts.
\<close>

definition first_position :: "int32 \<Rightarrow> itemVote list \<Rightarrow> nat" where
  "first_position c ivs = length (takeWhile (\<lambda>iv. voteCount iv \<noteq> c) ivs)"

text \<open>The sorted list that \<open>GetVoteSummary\<close> ranks, for a list of items.\<close>

definition ranked_order :: "RetrospectiveItem list \<Rightarrow> itemVote list" where
  "ranked_order items =
     sort_by_votes (map (\<lambda>item. \<lparr>itemID = ItemID item, voteCount = VoteCount item\<rparr>) items)"

text \<open>The key of that sort: ascending in it is descending in the vote count.\<close>

abbreviation (input) desc_key :: "itemVote \<Rightarrow> int" where
  "desc_key iv \<equiv> - sint (voteCount iv)"

text \<open>Reader for the concrete instances: the ranks and the total that \<open>GetVoteSummary\<close> returns.\<close>

definition ranks_and_total :: "status_error + GetVoteSummaryResponse \<Rightarrow> (int32 list \<times> int32) option" where
  "ranks_and_total r =
     (case r of Inl e \<Rightarrow> None | Inr resp \<Rightarrow> Some (map Rank (Summaries resp), TotalVotes resp))"

text \<open>
  In the spec's words: the participants of a retrospective that are currently online
  (the stored records of that retrospective whose \<open>isOnline\<close> flag is set, not all that
  ever joined), and their number. These two do not use the store's listing method; the
  result of the code is compared with them.
\<close>

fun online_participants :: "string \<Rightarrow> Participant store \<Rightarrow> Participant list" where
  "online_participants rid [] = []"
| "online_participants rid ((k, p) # m) =
     (if Participant_RetrospectiveID p = rid \<and> IsOnline p
      then p # online_participants rid m else online_participants rid m)"

fun online_count :: "string \<Rightarrow> Participant store \<Rightarrow> nat" where
  "online_count rid [] = 0"
| "online_count rid ((k, p) # m) =
     (if Participant_RetrospectiveID p = rid \<and> IsOnline p then 1 else 0) + online_count rid m"









section \<open>A small board, for the concrete instances\<close>

definition ex_retro :: "RetrospectiveStatus \<Rightarrow> Retrospective" where
  "ex_retro st =
     \<lparr>RetrospectiveID = ''RETRO-1'', TeamID = ''team'', SprintName = ''Sprint 1'', Status = st,
      VotingConfig = \<lparr>MaxVotesPerUser = 2, AllowMultipleVotesPerItem = False, AnonymousVoting = False\<rparr>,
      CreatedBy = ''ann'', FacilitatorID = ''ann'', ItemCount = 3, ActionItemCount = 0,
      ParticipantCount = 0, CompletedAt = 0, Created = 1, Updated = 1\<rparr>"

definition ex_item :: "string \<Rightarrow> int32 \<Rightarrow> RetrospectiveItem" where
  "ex_item iid n =
     \<lparr>ItemID = iid, Item_RetrospectiveID = ''RETRO-1'', ColumnID = ''went_well'',
      Content = ''text'', VoteCount = n, Position = 0, Item_Created = 2, Item_Updated = 2\<rparr>"

definition ex_vote :: "string \<Rightarrow> string \<Rightarrow> time \<Rightarrow> Vote" where
  "ex_vote vid iid t =
     \<lparr>VoteID = vid, Vote_RetrospectiveID = ''RETRO-1'', Vote_ItemID = iid,
      Vote_UserID = getUserIDFromContext, Vote_Created = t\<rparr>"

text \<open>The board in its voting phase, with three cards and no vote yet.\<close>

definition ex_state :: state where
  "ex_state =
     \<lparr>retroStore = [(''RETRO-1'', ex_retro RetrospectiveStatusVoting)],
      itemStore = [(''ITEM-1'', ex_item ''ITEM-1'' 0), (''ITEM-2'', ex_item ''ITEM-2'' 0),
                   (''ITEM-3'', ex_item ''ITEM-3'' 0)],
      voteStore = [],
      participantStore = [],
      broadcaster = NewEventBroadcaster\<rparr>"

text \<open>The same board after the user has voted for the first two cards.\<close>

definition ex_state_voted :: state where
  "ex_state_voted =
     ex_state\<lparr>itemStore := [(''ITEM-1'', ex_item ''ITEM-1'' 1), (''ITEM-2'', ex_item ''ITEM-2'' 1),
                              (''ITEM-3'', ex_item ''ITEM-3'' 0)],
               voteStore := [(''VOTE-10'', ex_vote ''VOTE-10'' ''ITEM-1'' 10),
                             (''VOTE-20'', ex_vote ''VOTE-20'' ''ITEM-2'' 20)]\<rparr>"

text \<open>The board after one vote for the first card, cast with id VOTE-10 at the instants 10 and 11.\<close>

definition ex_state_once :: state where
  "ex_state_once =
     ex_state\<lparr>voteStore := [(''VOTE-10'', ex_vote ''VOTE-10'' ''ITEM-1'' 10)],
               itemStore := [(''ITEM-1'', (ex_item ''ITEM-1'' 1)\<lparr>Item_Updated := 11\<rparr>),
                             (''ITEM-2'', ex_item ''ITEM-2'' 0), (''ITEM-3'', ex_item ''ITEM-3'' 0)]\<rparr>"

text \<open>The board in a given phase, and the board completed at the instant 40.\<close>

definition ex_state_in :: "RetrospectiveStatus \<Rightarrow> state" where
  "ex_state_in st = ex_state\<lparr>retroStore := [(''RETRO-1'', ex_retro st)]\<rparr>"

definition ex_state_completed :: state where
  "ex_state_completed =
     ex_state\<lparr>retroStore := [(''RETRO-1'', (ex_retro RetrospectiveStatusCompleted)\<lparr>CompletedAt := 40\<rparr>)]\<rparr>"

text \<open>The active board with one subscriber, whose channel is the first one made.\<close>

definition ex_state_watched :: state where
  "ex_state_watched =
     (ex_state_in RetrospectiveStatusActive)\<lparr>broadcaster := snd (Subscribe NewEventBroadcaster ''RETRO-1'')\<rparr>"

text \<open>
  A broadcaster with three subscribers of retrospective R, the third with a full buffer,
  and one subscriber of retrospective S; and two events.
\<close>

definition ex_event :: "time \<Rightarrow> RetrospectiveEvent" where
  "ex_event t = \<lparr>Event_RetrospectiveId = ''R'', Timestamp = t, Event = ItemDeleted ''ITEM-1'' ''went_well''\<rparr>"

definition ex_hub :: EventBroadcaster where
  "ex_hub =
     \<lparr>subscribers = (\<lambda>_. [])(''R'' := [0, 1, 2], ''S'' := [3]),
      heap = [\<lparr>buf = [], closed = False\<rparr>, \<lparr>buf = [], closed = False\<rparr>,
              \<lparr>buf = replicate 100 (ex_event 0), closed = False\<rparr>, \<lparr>buf = [], closed = False\<rparr>]\<rparr>"

text \<open>The watched board with the participant bob, who joined at the instant 5.\<close>

definition ex_bob :: Participant where
  "ex_bob =
     \<lparr>ParticipantID = ''RETRO-1:bob'', Participant_RetrospectiveID = ''RETRO-1'', UserID = ''bob'',
      DisplayName = ''Bob'', AvatarURL = [], Role = ParticipantRoleMember, IsOnline = True,
      JoinedAt = 5, LastActive = 7\<rparr>"

definition ex_state_present :: state where
  "ex_state_present = ex_state_watched\<lparr>participantStore := [(''RETRO-1:bob'', ex_bob)]\<rparr>"

text \<open>A board of four cards with 5, 5, 3 and 1 votes, and the same cards listed in another order.\<close>

definition ex_state_counted :: state where
  "ex_state_counted =
     ex_state\<lparr>itemStore := [(''ITEM-1'', ex_item ''ITEM-1'' 5), (''ITEM-2'', ex_item ''ITEM-2'' 5),
                              (''ITEM-3'', ex_item ''ITEM-3'' 3), (''ITEM-4'', ex_item ''ITEM-4'' 1)]\<rparr>"

definition ex_state_shuffled :: state where
  "ex_state_shuffled =
     ex_state\<lparr>itemStore := [(''ITEM-3'', ex_item ''ITEM-3'' 3), (''ITEM-1'', ex_item ''ITEM-1'' 5),
                              (''ITEM-4'', ex_item ''ITEM-4'' 1), (''ITEM-2'', ex_item ''ITEM-2'' 5)]\<rparr>"

text \<open>
  The watched board with three more presence records: bob online, carol who has left
  (offline), both in RETRO-1, and dave online in another retrospective.
\<close>

definition ex_carol :: Participant where
  "ex_carol =
     \<lparr>ParticipantID = ''RETRO-1:carol'', Participant_RetrospectiveID = ''RETRO-1'', UserID = ''carol'',
      DisplayName = ''Carol'', AvatarURL = [], Role = ParticipantRoleMember, IsOnline = False,
      JoinedAt = 6, LastActive = 8\<rparr>"

definition ex_dave :: Participant where
  "ex_dave =
     \<lparr>ParticipantID = ''RETRO-2:dave'', Participant_RetrospectiveID = ''RETRO-2'', UserID = ''dave'',
      DisplayName = ''Dave'', AvatarURL = [], Role = ParticipantRoleMember, IsOnline = True,
      JoinedAt = 4, LastActive = 9\<rparr>"

definition ex_state_crowd :: state where
  "ex_state_crowd =
     ex_state_watched\<lparr>participantStore :=
       [(''RETRO-1:bob'', ex_bob), (''RETRO-1:carol'', ex_carol), (''RETRO-2:dave'', ex_dave)]\<rparr>"


section \<open>Facts about the stores\<close>

lemma sint_word_of_nat_int32:
  assumes "n < 2 ^ 31"
  shows "sint (word_of_nat n :: int32) = int n"
proof -
  have "(word_of_nat n :: int32) = word_of_int (int n)" by simp
  moreover have "signed_take_bit 31 (int n) = int n"
    using assms by (intro signed_take_bit_int_eq_self) auto
  ultimately show ?thesis by (simp add: sint_sbintrunc' del: of_int_of_nat_eq)
qed

lemma sint_succ_int32: "sint (x :: int32) < 2 ^ 31 - 1 \<longrightarrow> sint (x + 1) = sint x + 1"
proof
  assume a: "sint x < 2 ^ 31 - 1"
  have "- (2 ^ 31) \<le> sint x" using sint_ge [of x] by simp
  with a have "signed_take_bit 31 (sint x + 1) = sint x + 1"
    by (intro signed_take_bit_int_eq_self) auto
  then show "sint (x + 1) = sint x + 1"
    by (simp add: sint_word_add)
qed

lemma find_filter: "find P xs = (case filter P xs of [] \<Rightarrow> None | x # _ \<Rightarrow> Some x)"
  by (induction xs) auto

lemma GetByUserAndItem_isl:
  "isl (GetByUserAndItem m r i u) \<longleftrightarrow> filter (vote_matches r i u) (values_of m) = []"
  unfolding GetByUserAndItem_def vote_matches_def find_filter
  by (simp split: list.splits)


lemma filter_update_new:
  assumes "filter P (values_of m) = []" and "P v"
  shows "filter P (values_of (AList.update k v m)) = [v]"
  using assms by (induction m) (auto simp: values_of_def split: if_splits)

section \<open>CastVote\<close>

text \<open>What a successful \<open>CastVote\<close> has checked, and the state it leaves.\<close>

lemma CastVote_success:
  assumes "CastVote s u r i vid t1 t2 = (Inr (), s')"
  shows "\<exists>retro item.
           r \<noteq> [] \<and> i \<noteq> []
         \<and> RetroStore_Get (retroStore s) r = Inr retro
         \<and> (Status retro = RetrospectiveStatusVoting \<or> Status retro = RetrospectiveStatusActive)
         \<and> ItemStore_Get (itemStore s) i = Inr item
         \<and> Item_RetrospectiveID item = r
         \<and> (isl (GetByUserAndItem (voteStore s) r i u) \<or> AllowMultipleVotesPerItem (VotingConfig retro))
         \<and> sint (word_of_nat (CountByUser (voteStore s) r u) :: int32) < sint (MaxVotesPerUser (VotingConfig retro))
         \<and> s' = s\<lparr>voteStore := AList.update vid \<lparr>VoteID = vid, Vote_RetrospectiveID = r,
                            Vote_ItemID = i, Vote_UserID = u, Vote_Created = t1\<rparr> (voteStore s),
                    itemStore := AList.update i (item\<lparr>VoteCount := VoteCount item + 1, Item_Updated := t2\<rparr>) (itemStore s)\<rparr>"
  using assms
  by (auto simp: CastVote_def Let_def VoteStore_Create_def IncrementVoteCount_def ItemStore_Get_def
           split: if_splits sum.splits option.splits)

text \<open>
  C1. When the user already holds \<open>maxVotesPerUser\<close> votes (or more) in the
  retrospective, a \<open>CastVote\<close> that passes the earlier checks (ids given, retrospective
  in ACTIVE or VOTING, item of this retrospective, no vote of the user for the item
  unless several are allowed) fails with \<open>VoteLimitExceeded\<close>, and returns the state as
  it was: the item's vote count and the stored votes are unchanged. The count is
  compared as an \<open>int32\<close>, hence the bound on it; a count equal to the limit is
  always below the bound.
\<close>

theorem CastVote_limit_exceeded:
  assumes "retrospective_id \<noteq> []" and "item_id \<noteq> []"
    and "RetroStore_Get (retroStore s) retrospective_id = Inr retro"
    and "Status retro = RetrospectiveStatusVoting \<or> Status retro = RetrospectiveStatusActive"
    and "ItemStore_Get (itemStore s) item_id = Inr item"
    and "Item_RetrospectiveID item = retrospective_id"
    and "isl (GetByUserAndItem (voteStore s) retrospective_id item_id userID)
         \<or> AllowMultipleVotesPerItem (VotingConfig retro)"
    and "sint (MaxVotesPerUser (VotingConfig retro)) \<le> int (CountByUser (voteStore s) retrospective_id userID)"
    and "CountByUser (voteStore s) retrospective_id userID < 2 ^ 31"
  shows "CastVote s userID retrospective_id item_id voteID now_created now_updated
           = (Inl \<lparr>Code = FailedPrecondition, Cause = ErrVoteLimitExceeded\<rparr>, s)"
proof -
  let ?n = "CountByUser (voteStore s) retrospective_id userID"
  have "sint (word_of_nat ?n :: int32) = int ?n"
    using assms(9) by (rule sint_word_of_nat_int32)
  then show ?thesis using assms by (auto simp: CastVote_def)
qed

theorem CastVote_limit_exceeded_witness:
  "CountByUser (voteStore ex_state_voted) ''RETRO-1'' getUserIDFromContext = 2
   \<and> CastVote ex_state_voted getUserIDFromContext ''RETRO-1'' ''ITEM-3'' ''VOTE-30'' 30 31
       = (Inl \<lparr>Code = FailedPrecondition, Cause = ErrVoteLimitExceeded\<rparr>, ex_state_voted)"
proof -
  let ?s = ex_state_voted and ?u = getUserIDFromContext
  have count: "CountByUser (voteStore ?s) ''RETRO-1'' ?u = 2"
    by (simp add: ex_state_voted_def ex_state_def CountByUser_def values_of_def ex_vote_def)
  have retro: "RetroStore_Get (retroStore ?s) ''RETRO-1'' = Inr (ex_retro RetrospectiveStatusVoting)"
    by (simp add: ex_state_voted_def ex_state_def RetroStore_Get_def)
  have item: "ItemStore_Get (itemStore ?s) ''ITEM-3'' = Inr (ex_item ''ITEM-3'' 0)"
    by (simp add: ex_state_voted_def ex_state_def ItemStore_Get_def)
  have none: "isl (GetByUserAndItem (voteStore ?s) ''RETRO-1'' ''ITEM-3'' ?u)"
    by (simp add: ex_state_voted_def ex_state_def GetByUserAndItem_def values_of_def ex_vote_def)
  have "CastVote ?s ?u ''RETRO-1'' ''ITEM-3'' ''VOTE-30'' 30 31
          = (Inl \<lparr>Code = FailedPrecondition, Cause = ErrVoteLimitExceeded\<rparr>, ?s)"
    using retro item none count
    by (intro CastVote_limit_exceeded [where retro = "ex_retro RetrospectiveStatusVoting"
                                        and item = "ex_item ''ITEM-3'' 0"])
       (simp_all add: ex_retro_def ex_item_def)
  with count show ?thesis by simp
qed

text \<open>
  C2. In a retrospective that allows one vote per item, when a \<open>CastVote\<close> has
  succeeded, a second one by the same user for the same item (whatever its vote id and
  clock readings) fails with \<open>AlreadyExists\<close> and leaves the state of the first: the
  store holds exactly one vote of the triple, and the item's vote count is the old one
  plus 1 (\<open>VoteCount++\<close> on an \<open>int32\<close>; below the largest \<open>int32\<close> that is the
  integer successor).
\<close>

theorem CastVote_twice:
  assumes retro: "RetroStore_Get (retroStore s) rid = Inr retro"
    and single: "\<not> AllowMultipleVotesPerItem (VotingConfig retro)"
    and item: "ItemStore_Get (itemStore s) iid = Inr item"
    and first: "CastVote s userID rid iid voteID now_created now_updated = (Inr (), s1)"
  shows "CastVote s1 userID rid iid voteID' now_created' now_updated'
           = (Inl \<lparr>Code = AlreadyExists, Cause = ErrAlreadyExists\<rparr>, s1)
       \<and> length (filter (vote_matches rid iid userID) (values_of (voteStore s1))) = 1
       \<and> ItemStore_Get (itemStore s1) iid
           = Inr (item\<lparr>VoteCount := VoteCount item + 1, Item_Updated := now_updated\<rparr>)
       \<and> (sint (VoteCount item) < 2 ^ 31 - 1
            \<longrightarrow> sint (VoteCount item + 1) = sint (VoteCount item) + 1)"
proof -
  let ?vote = "\<lparr>VoteID = voteID, Vote_RetrospectiveID = rid, Vote_ItemID = iid,
                 Vote_UserID = userID, Vote_Created = now_created\<rparr>"
  let ?item1 = "item\<lparr>VoteCount := VoteCount item + 1, Item_Updated := now_updated\<rparr>"
  from CastVote_success [OF first] retro item
  have ids: "rid \<noteq> []" "iid \<noteq> []"
    and status: "Status retro = RetrospectiveStatusVoting \<or> Status retro = RetrospectiveStatusActive"
    and belongs: "Item_RetrospectiveID item = rid"
    and none: "isl (GetByUserAndItem (voteStore s) rid iid userID) \<or> AllowMultipleVotesPerItem (VotingConfig retro)"
    and s1: "s1 = s\<lparr>voteStore := AList.update voteID ?vote (voteStore s),
                      itemStore := AList.update iid ?item1 (itemStore s)\<rparr>"
    by auto
  from none single have "filter (vote_matches rid iid userID) (values_of (voteStore s)) = []"
    by (simp add: GetByUserAndItem_isl)
  then have one: "filter (vote_matches rid iid userID) (values_of (voteStore s1)) = [?vote]"
    unfolding s1 by (simp add: filter_update_new vote_matches_def)
  then have found: "\<not> isl (GetByUserAndItem (voteStore s1) rid iid userID)"
    by (simp add: GetByUserAndItem_isl)
  have retro1: "RetroStore_Get (retroStore s1) rid = Inr retro"
    using retro by (simp add: s1)
  have item1: "ItemStore_Get (itemStore s1) iid = Inr ?item1"
    by (simp add: s1 ItemStore_Get_def update_conv')
  have "CastVote s1 userID rid iid voteID' now_created' now_updated'
          = (Inl (ToGRPCError ErrAlreadyExists), s1)"
    using ids retro1 status item1 belongs found single by (simp add: CastVote_def)
  moreover have "sint (VoteCount item) < 2 ^ 31 - 1
                   \<longrightarrow> sint (VoteCount item + 1) = sint (VoteCount item) + 1"
    by (rule sint_succ_int32)
  ultimately show ?thesis using one item1 by simp
qed

theorem CastVote_twice_witness:
  "CastVote ex_state getUserIDFromContext ''RETRO-1'' ''ITEM-1'' ''VOTE-10'' 10 11 = (Inr (), ex_state_once)
   \<and> CastVote ex_state_once getUserIDFromContext ''RETRO-1'' ''ITEM-1'' ''VOTE-20'' 20 21
       = (Inl \<lparr>Code = AlreadyExists, Cause = ErrAlreadyExists\<rparr>, ex_state_once)
   \<and> length (filter (vote_matches ''RETRO-1'' ''ITEM-1'' getUserIDFromContext)
               (values_of (voteStore ex_state_once))) = 1
   \<and> map_sum id VoteCount (ItemStore_Get (itemStore ex_state) ''ITEM-1'') = Inr 0
   \<and> map_sum id VoteCount (ItemStore_Get (itemStore ex_state_once) ''ITEM-1'') = Inr 1"
proof -
  let ?u = getUserIDFromContext
  have retro: "RetroStore_Get (retroStore ex_state) ''RETRO-1'' = Inr (ex_retro RetrospectiveStatusVoting)"
    by (simp add: ex_state_def RetroStore_Get_def)
  have single: "\<not> AllowMultipleVotesPerItem (VotingConfig (ex_retro RetrospectiveStatusVoting))"
    by (simp add: ex_retro_def)
  have item: "ItemStore_Get (itemStore ex_state) ''ITEM-1'' = Inr (ex_item ''ITEM-1'' 0)"
    by (simp add: ex_state_def ItemStore_Get_def)
  have first: "CastVote ex_state ?u ''RETRO-1'' ''ITEM-1'' ''VOTE-10'' 10 11 = (Inr (), ex_state_once)"
    by (simp add: CastVote_def ex_state_def ex_state_once_def RetroStore_Get_def ItemStore_Get_def
          ex_retro_def ex_item_def ex_vote_def GetByUserAndItem_def CountByUser_def values_of_def
          IncrementVoteCount_def VoteStore_Create_def)
  from CastVote_twice [OF retro single item first, of "''VOTE-20''" 20 21] first item
  show ?thesis by (simp add: ex_item_def)
qed


section \<open>GetVoteSummary\<close>

lemma sint_inject: "sint (a :: int32) = sint b \<longleftrightarrow> a = b"
  by (auto intro: signed_word_eqI)

lemma distinct_map_insort_key:
  "distinct (map f (insort_key k x xs)) \<longleftrightarrow> distinct (map f (x # xs))"
  by (induction xs) (auto simp: set_insort_key)

lemma distinct_map_sort_key: "distinct (map f (sort_key k xs)) \<longleftrightarrow> distinct (map f xs)"
  by (induction xs) (auto simp: distinct_map_insort_key)

lemma length_filter_sort_key: "length (filter P (sort_key k xs)) = length (filter P xs)"
  by (simp add: filter_sort)

lemma foldl_add_sum_list:
  "foldl (\<lambda>total item. total + f item) (a :: int32) xs = a + sum_list (map f xs)"
  by (induction xs arbitrary: a) (auto simp: add.assoc)

lemma first_position_append_found:
  assumes "c \<in> voteCount ` set pre"
  shows "first_position c (pre @ xs) = first_position c pre"
  using assms unfolding first_position_def
  by (induction pre) auto

lemma first_position_fresh:
  assumes "c \<notin> voteCount ` set pre" and "voteCount x = c"
  shows "first_position c (pre @ x # xs) = length pre"
  using assms unfolding first_position_def
  by (induction pre) auto

text \<open>In a list sorted by descending count whose last entry has another count, no entry has the count of the next one.\<close>

lemma sorted_new_count:
  assumes "sorted (map desc_key (pre @ [x]))" and "pre \<noteq> [] \<longrightarrow> voteCount (last pre) \<noteq> voteCount x"
  shows "voteCount x \<notin> voteCount ` set pre"
proof
  assume "voteCount x \<in> voteCount ` set pre"
  then obtain y where y: "y \<in> set pre" "voteCount y = voteCount x" by auto
  then have ne: "pre \<noteq> []" by auto
  then obtain ys l where pre: "pre = ys @ [l]"
    by (metis rev_exhaust)
  from assms(1) have sorted_pre: "sorted (map desc_key pre)" and le_x: "\<forall>z \<in> set pre. desc_key z \<le> desc_key x"
    by (auto simp: sorted_append)
  from sorted_pre have "\<forall>z \<in> set pre. desc_key z \<le> desc_key (last pre)"
    unfolding pre by (auto simp: sorted_append)
  with y have "desc_key x \<le> desc_key (last pre)" by auto
  moreover from le_x ne have "desc_key (last pre) \<le> desc_key x" by simp
  ultimately have "sint (voteCount (last pre)) = sint (voteCount x)" by simp
  then have "voteCount (last pre) = voteCount x" by (simp add: sint_inject)
  with assms(2) ne show False by simp
qed

text \<open>
  The loop, started at index \<open>length pre\<close> on the rest \<open>xs\<close> of a sorted list
  \<open>pre @ xs\<close> with the two variables as the loop has left them after \<open>pre\<close>.
\<close>

lemma rank_loop_spec:
  assumes "sorted (map desc_key (pre @ xs))" and "distinct (map itemID xs)"
    and "pre \<noteq> [] \<longrightarrow> lastVoteCount = voteCount (last pre)
                        \<and> currentRank = word_of_nat (Suc (first_position lastVoteCount pre))"
    and "pre = [] \<longrightarrow> currentRank = 1 \<and> lastVoteCount = - 1"
  shows "(\<forall>iv \<in> set xs. rank_loop (length pre) xs rankMap currentRank lastVoteCount (itemID iv)
                           = Some (word_of_nat (Suc (first_position (voteCount iv) (pre @ xs)))))
       \<and> (\<forall>k. k \<notin> itemID ` set xs \<longrightarrow>
              rank_loop (length pre) xs rankMap currentRank lastVoteCount k = rankMap k)"
  using assms
proof (induction xs arbitrary: pre rankMap currentRank lastVoteCount)
  case Nil
  then show ?case by simp
next
  case (Cons x xs)
  let ?c = "voteCount x"
  let ?pre = "pre @ [x]"
  define cr where "cr = (if ?c \<noteq> lastVoteCount then word_of_nat (length pre + 1) else currentRank)"
  define lv where "lv = (if ?c \<noteq> lastVoteCount then ?c else lastVoteCount)"
  have unfold: "rank_loop (length pre) (x # xs) rankMap currentRank lastVoteCount
                  = rank_loop (length ?pre) xs (rankMap(itemID x \<mapsto> cr)) cr lv"
    by (simp add: cr_def lv_def)
  have sorted: "sorted (map desc_key (?pre @ xs))" and sorted_pre: "sorted (map desc_key (pre @ [x]))"
    using Cons.prems(1) by (auto simp: sorted_append)
  have dist: "distinct (map itemID xs)" and new_id: "itemID x \<notin> itemID ` set xs"
    using Cons.prems(2) by auto
  have lv: "lv = ?c" by (simp add: lv_def)
  have cr: "cr = word_of_nat (Suc (first_position ?c ?pre))"
  proof (cases "?c \<noteq> lastVoteCount")
    case True
    then have "pre \<noteq> [] \<longrightarrow> voteCount (last pre) \<noteq> ?c"
      using Cons.prems(3) by auto
    from sorted_new_count [OF sorted_pre this]
    have "first_position ?c (pre @ x # []) = length pre"
      by (intro first_position_fresh) auto
    with True show ?thesis by (simp add: cr_def)
  next
    case False
    show ?thesis
    proof (cases "pre = []")
      case True
      with False Cons.prems(4) show ?thesis
        by (simp add: cr_def first_position_def)
    next
      case nonempty: False
      with Cons.prems(3) False have "?c \<in> voteCount ` set pre"
        and "currentRank = word_of_nat (Suc (first_position ?c pre))"
        by (auto intro: rev_image_eqI [of "last pre"])
      with False show ?thesis
        by (simp add: cr_def first_position_append_found)
    qed
  qed
  have inv: "?pre \<noteq> [] \<longrightarrow> lv = voteCount (last ?pre) \<and> cr = word_of_nat (Suc (first_position lv ?pre))"
    using lv cr by simp
  have inv0: "?pre = [] \<longrightarrow> cr = 1 \<and> lv = - 1" by simp
  from Cons.IH [OF sorted dist inv inv0, of "rankMap(itemID x \<mapsto> cr)"]
  have rest: "\<forall>iv \<in> set xs. rank_loop (length ?pre) xs (rankMap(itemID x \<mapsto> cr)) cr lv (itemID iv)
                           = Some (word_of_nat (Suc (first_position (voteCount iv) (?pre @ xs))))"
    and frame: "\<forall>k. k \<notin> itemID ` set xs \<longrightarrow>
              rank_loop (length ?pre) xs (rankMap(itemID x \<mapsto> cr)) cr lv k = (rankMap(itemID x \<mapsto> cr)) k"
    by blast+
  have here: "rank_loop (length ?pre) xs (rankMap(itemID x \<mapsto> cr)) cr lv (itemID x)
                = Some (word_of_nat (Suc (first_position ?c (pre @ x # xs))))"
  proof -
    have "first_position ?c (?pre @ xs) = first_position ?c ?pre"
      by (intro first_position_append_found) simp
    with frame new_id cr show ?thesis by simp
  qed
  have app: "?pre @ xs = pre @ x # xs" by simp
  show ?case
    unfolding unfold
  proof (intro conjI ballI allI impI)
    fix iv assume "iv \<in> set (x # xs)"
    then consider "iv = x" | "iv \<in> set xs" by auto
    then show "rank_loop (length ?pre) xs (rankMap(itemID x \<mapsto> cr)) cr lv (itemID iv)
                 = Some (word_of_nat (Suc (first_position (voteCount iv) (pre @ x # xs))))"
    proof cases
      case 1
      with here show ?thesis by (simp only:)
    next
      case 2
      with rest show ?thesis by (simp only: app)
    qed
  next
    fix k assume "k \<notin> itemID ` set (x # xs)"
    then have "k \<notin> itemID ` set xs" and "k \<noteq> itemID x" by auto
    with frame have "rank_loop (length ?pre) xs (rankMap(itemID x \<mapsto> cr)) cr lv k
                       = (rankMap(itemID x \<mapsto> cr)) k"
      by blast
    also have "\<dots> = rankMap k"
      using \<open>k \<noteq> itemID x\<close> by simp
    finally show "rank_loop (length ?pre) xs (rankMap(itemID x \<mapsto> cr)) cr lv k = rankMap k" .
  qed
qed

text \<open>In the sorted list, a tie group starts after the entries with more votes.\<close>

lemma first_position_sorted:
  assumes "sorted (map desc_key xs)" and "c \<in> voteCount ` set xs"
  shows "first_position c xs = length (filter (\<lambda>iv. sint c < sint (voteCount iv)) xs)"
  using assms
proof (induction xs)
  case Nil
  then show ?case by simp
next
  case (Cons x xs)
  from Cons.prems(1) have sorted: "sorted (map desc_key xs)" and least: "\<forall>y \<in> set xs. desc_key x \<le> desc_key y"
    by auto
  show ?case
  proof (cases "voteCount x = c")
    case True
    with least have "filter (\<lambda>iv. sint c < sint (voteCount iv)) (x # xs) = []"
      by (auto simp: filter_empty_conv)
    with True show ?thesis by (simp add: first_position_def)
  next
    case False
    with Cons.prems(2) obtain y where y: "y \<in> set xs" "voteCount y = c" by auto
    with least have "sint c \<le> sint (voteCount x)" by auto
    moreover from False have "sint c \<noteq> sint (voteCount x)" by (simp add: sint_inject)
    ultimately have more: "sint c < sint (voteCount x)" by simp
    from y have "c \<in> voteCount ` set xs" by auto
    from Cons.IH [OF sorted this] False more show ?thesis
      by (simp add: first_position_def)
  qed
qed

lemma store_ok_distinct_ids:
  assumes "store_ok ItemID m"
  shows "distinct (map ItemID (ItemStore_ListByRetrospective m rid))"
proof -
  from assms have "map ItemID (values_of m) = map fst m"
    by (auto simp: store_ok_def values_of_def)
  with assms have "distinct (map ItemID (values_of m))"
    by (simp add: store_ok_def)
  then show ?thesis
    unfolding ItemStore_ListByRetrospective_def by (rule distinct_map_filter)
qed

text \<open>
  C3. For the items of the retrospective, in the order the store lists them,
  \<open>GetVoteSummary\<close> returns one summary per item with the item's vote count, and the
  rank of an item is the 1-based position, in the list sorted by descending count, of the
  first item with the same count. That position is one more than the number of items
  with strictly more votes, so it does not depend on the order of the store or on the
  order the sort leaves among equal counts, and equal counts have equal ranks. The total
  is the sum of the vote counts. Ranks and total are \<open>int32\<close> values.
\<close>

theorem GetVoteSummary_ranks:
  assumes ok: "store_ok ItemID (itemStore s)" and rid: "rid \<noteq> []"
    and items: "items = ItemStore_ListByRetrospective (itemStore s) rid"
  shows "\<exists>resp. GetVoteSummary s uid rid = Inr resp
         \<and> map Summary_ItemId (Summaries resp) = map ItemID items
         \<and> map Summary_VoteCount (Summaries resp) = map VoteCount items
         \<and> map Rank (Summaries resp)
             = map (\<lambda>item. word_of_nat (Suc (first_position (VoteCount item) (ranked_order items)))) items
         \<and> map Rank (Summaries resp)
             = map (\<lambda>item. word_of_nat (Suc (length
                      (filter (\<lambda>other. sint (VoteCount item) < sint (VoteCount other)) items)))) items
         \<and> TotalVotes resp = sum_list (map VoteCount items)"
proof -
  let ?ivs = "map (\<lambda>item. \<lparr>itemID = ItemID item, voteCount = VoteCount item\<rparr>) items"
  let ?sorted = "sort_by_votes ?ivs"
  let ?rankMap = "rank_loop 0 ?sorted Map.empty 1 (- 1)"
  have sorted: "sorted (map desc_key ([] @ ?sorted))"
    by (simp add: sort_by_votes_def)
  have "distinct (map ItemID items)"
    unfolding items using ok by (rule store_ok_distinct_ids)
  then have "distinct (map itemID ?ivs)"
    by (simp add: comp_def)
  then have dist: "distinct (map itemID ?sorted)"
    by (simp add: sort_by_votes_def distinct_map_sort_key)
  have member: "\<lparr>itemID = ItemID item, voteCount = VoteCount item\<rparr> \<in> set ?sorted" if "item \<in> set items" for item
    using that by (auto simp: sort_by_votes_def)
  have ranks: "\<forall>iv \<in> set ?sorted. ?rankMap (itemID iv)
                 = Some (word_of_nat (Suc (first_position (voteCount iv) ?sorted)))"
    using rank_loop_spec [where pre = "[]" and xs = ?sorted and currentRank = 1
                            and lastVoteCount = "- 1" and rankMap = Map.empty, OF sorted dist]
    by simp
  have rank: "rank_lookup ?rankMap (ItemID item)
                = word_of_nat (Suc (first_position (VoteCount item) (ranked_order items)))"
    if "item \<in> set items" for item
    using ranks member [OF that] by (fastforce simp: rank_lookup_def ranked_order_def)
  have greater: "first_position (VoteCount item) (ranked_order items)
                   = length (filter (\<lambda>other. sint (VoteCount item) < sint (VoteCount other)) items)"
    if "item \<in> set items" for item
  proof -
    from member [OF that] have "VoteCount item \<in> voteCount ` set ?sorted"
      by (metis (no_types, lifting) image_eqI itemVote.select_convs(2))
    with sorted have "first_position (VoteCount item) ?sorted
        = length (filter (\<lambda>iv. sint (VoteCount item) < sint (voteCount iv)) ?sorted)"
      by (intro first_position_sorted) simp_all
    also have "\<dots> = length (filter (\<lambda>iv. sint (VoteCount item) < sint (voteCount iv)) ?ivs)"
      by (simp add: sort_by_votes_def length_filter_sort_key)
    also have "\<dots> = length (filter (\<lambda>other. sint (VoteCount item) < sint (VoteCount other)) items)"
      by (simp add: filter_map comp_def)
    finally show ?thesis by (simp add: ranked_order_def)
  qed
  define resp where "resp =
    \<lparr>Summaries = map (\<lambda>item. \<lparr>Summary_ItemId = ItemID item, Summary_VoteCount = VoteCount item,
                                Rank = rank_lookup ?rankMap (ItemID item),
                                CurrentUserVoted = (ItemID item \<in> set (map Vote_ItemID
                                     (ListByUser (voteStore s) rid uid)))\<rparr>) items,
      TotalVotes = foldl (\<lambda>total item. total + VoteCount item) 0 items\<rparr>"
  have call: "GetVoteSummary s uid rid = Inr resp"
    using rid by (simp add: GetVoteSummary_def Let_def resp_def items)
  have ids: "map Summary_ItemId (Summaries resp) = map ItemID items"
    and counts: "map Summary_VoteCount (Summaries resp) = map VoteCount items"
    by (simp_all add: resp_def comp_def)
  have r1: "map Rank (Summaries resp)
             = map (\<lambda>item. word_of_nat (Suc (first_position (VoteCount item) (ranked_order items)))) items"
    using rank by (simp add: resp_def comp_def)
  then have r2: "map Rank (Summaries resp)
             = map (\<lambda>item. word_of_nat (Suc (length
                      (filter (\<lambda>other. sint (VoteCount item) < sint (VoteCount other)) items)))) items"
    using greater by simp
  have total: "TotalVotes resp = sum_list (map VoteCount items)"
    by (simp add: resp_def foldl_add_sum_list)
  from call ids counts r1 r2 total show ?thesis by blast
qed

text \<open>The counts 5, 5, 3, 1 get the ranks 1, 1, 3, 4 and the total 14, in any order of the store.\<close>

theorem GetVoteSummary_ranks_witness:
  "map VoteCount (ItemStore_ListByRetrospective (itemStore ex_state_counted) ''RETRO-1'') = [5, 5, 3, 1]
   \<and> ranks_and_total (GetVoteSummary ex_state_counted getUserIDFromContext ''RETRO-1'') = Some ([1, 1, 3, 4], 14)
   \<and> map VoteCount (ItemStore_ListByRetrospective (itemStore ex_state_shuffled) ''RETRO-1'') = [3, 5, 1, 5]
   \<and> ranks_and_total (GetVoteSummary ex_state_shuffled getUserIDFromContext ''RETRO-1'') = Some ([3, 1, 4, 1], 14)"
proof -
  have rid: "''RETRO-1'' \<noteq> []" by simp
  have ok1: "store_ok ItemID (itemStore ex_state_counted)"
    and ok2: "store_ok ItemID (itemStore ex_state_shuffled)"
    by (simp_all add: store_ok_def ex_state_counted_def ex_state_shuffled_def ex_item_def)
  have items1: "ItemStore_ListByRetrospective (itemStore ex_state_counted) ''RETRO-1''
                  = [ex_item ''ITEM-1'' 5, ex_item ''ITEM-2'' 5, ex_item ''ITEM-3'' 3, ex_item ''ITEM-4'' 1]"
    and items2: "ItemStore_ListByRetrospective (itemStore ex_state_shuffled) ''RETRO-1''
                  = [ex_item ''ITEM-3'' 3, ex_item ''ITEM-1'' 5, ex_item ''ITEM-4'' 1, ex_item ''ITEM-2'' 5]"
    by (simp_all add: ItemStore_ListByRetrospective_def values_of_def ex_state_counted_def
          ex_state_shuffled_def ex_item_def)
  from GetVoteSummary_ranks [OF ok1 rid refl, of getUserIDFromContext]
  obtain r1 where r1: "GetVoteSummary ex_state_counted getUserIDFromContext ''RETRO-1'' = Inr r1"
    "map Rank (Summaries r1) = [1, 1, 3, 4]" "TotalVotes r1 = 14"
    unfolding items1 by (auto simp: ex_item_def)
  from GetVoteSummary_ranks [OF ok2 rid refl, of getUserIDFromContext]
  obtain r2 where r2: "GetVoteSummary ex_state_shuffled getUserIDFromContext ''RETRO-1'' = Inr r2"
    "map Rank (Summaries r2) = [3, 1, 4, 1]" "TotalVotes r2 = 14"
    unfolding items2 by (auto simp: ex_item_def)
  from r1 r2 show ?thesis
    by (simp add: ranks_and_total_def items1 items2 ex_item_def)
qed



section \<open>The broadcaster\<close>

lemma hub_ok_New: "hub_ok NewEventBroadcaster"
  by (simp add: hub_ok_def NewEventBroadcaster_def)

lemma hub_ok_Subscribe:
  assumes "hub_ok b"
  shows "hub_ok (snd (Subscribe b rid))"
proof -
  have reg: "ch < length (heap b) \<and> \<not> closed (heap b ! ch)" if "ch \<in> set (subscribers b r)" for ch r
    using assms that unfolding hub_ok_def by blast
  then have fresh: "length (heap b) \<notin> set (subscribers b r)" for r
    by (meson less_irrefl)
  have dist: "distinct (subscribers b r)" for r
    using assms unfolding hub_ok_def by blast
  have disj: "set (subscribers b r) \<inter> set (subscribers b r') = {}" if "r \<noteq> r'" for r r'
    using assms that unfolding hub_ok_def by blast
  show ?thesis
    unfolding hub_ok_def Subscribe_def Let_def
    using fresh dist disj reg
    by (auto simp: nth_append less_Suc_eq dest: reg)
qed

lemma try_send_open:
  assumes "ch < length h" and "\<not> closed (h ! ch)"
  shows "try_send h ch e =
           Inr (if length (buf (h ! ch)) < chan_cap then h[ch := (h ! ch)\<lparr>buf := buf (h ! ch) @ [e]\<rparr>] else h)"
  using assms by (simp add: try_send_def)

lemma send_all_delivers:
  assumes "distinct chs" and "\<forall>ch \<in> set chs. ch < length h \<and> \<not> closed (h ! ch)"
  shows "\<exists>h'. send_all h chs e = Inr h' \<and> length h' = length h
          \<and> (\<forall>ch < length h. h' ! ch =
                (if ch \<in> set chs \<and> length (buf (h ! ch)) < chan_cap
                 then (h ! ch)\<lparr>buf := buf (h ! ch) @ [e]\<rparr> else h ! ch))"
  using assms
proof (induction chs arbitrary: h)
  case Nil
  then show ?case by simp
next
  case (Cons c cs)
  let ?h1 = "if length (buf (h ! c)) < chan_cap then h[c := (h ! c)\<lparr>buf := buf (h ! c) @ [e]\<rparr>] else h"
  from Cons.prems have c: "c < length h" "\<not> closed (h ! c)" and notin: "c \<notin> set cs" and dist: "distinct cs"
    by auto
  have send: "try_send h c e = Inr ?h1"
    using c by (rule try_send_open)
  have len1: "length ?h1 = length h" by simp
  have same: "?h1 ! ch = h ! ch" if "ch \<noteq> c" for ch
    using that by simp
  have "\<forall>ch \<in> set cs. ch < length ?h1 \<and> \<not> closed (?h1 ! ch)"
    using Cons.prems(2) notin by (auto simp: nth_list_update)
  from Cons.IH [OF dist this] obtain h' where h': "send_all ?h1 cs e = Inr h'" "length h' = length ?h1"
      and nth: "\<forall>ch < length ?h1. h' ! ch =
                (if ch \<in> set cs \<and> length (buf (?h1 ! ch)) < chan_cap
                 then (?h1 ! ch)\<lparr>buf := buf (?h1 ! ch) @ [e]\<rparr> else ?h1 ! ch)"
    by blast
  have "send_all h (c # cs) e = Inr h'"
    using send h'(1) by simp
  moreover have "length h' = length h" using h'(2) len1 by simp
  moreover have "h' ! ch = (if ch \<in> set (c # cs) \<and> length (buf (h ! ch)) < chan_cap
                 then (h ! ch)\<lparr>buf := buf (h ! ch) @ [e]\<rparr> else h ! ch)" if "ch < length h" for ch
  proof (cases "ch = c")
    case True
    with nth that notin c show ?thesis by (auto simp: nth_list_update)
  next
    case False
    with nth that show ?thesis by (auto simp: nth_list_update)
  qed
  ultimately show ?case by blast
qed

lemma Broadcast_delivers:
  assumes "hub_ok b"
  shows "\<exists>b'. Broadcast b R e = Inr b' \<and> subscribers b' = subscribers b \<and> hub_ok b'
          \<and> length (heap b') = length (heap b)
          \<and> (\<forall>ch < length (heap b). heap b' ! ch =
                (if ch \<in> set (subscribers b R) \<and> length (buf (heap b ! ch)) < chan_cap
                 then (heap b ! ch)\<lparr>buf := buf (heap b ! ch) @ [e]\<rparr> else heap b ! ch))"
proof -
  from assms have "distinct (subscribers b R)"
    and "\<forall>ch \<in> set (subscribers b R). ch < length (heap b) \<and> \<not> closed (heap b ! ch)"
    by (auto simp: hub_ok_def)
  from send_all_delivers [OF this, of e] obtain h' where
    h': "send_all (heap b) (subscribers b R) e = Inr h'" "length h' = length (heap b)"
    and nth: "\<forall>ch < length (heap b). h' ! ch =
                (if ch \<in> set (subscribers b R) \<and> length (buf (heap b ! ch)) < chan_cap
                 then (heap b ! ch)\<lparr>buf := buf (heap b ! ch) @ [e]\<rparr> else heap b ! ch)"
    by blast
  have "hub_ok (b\<lparr>heap := h'\<rparr>)"
    using assms h'(2) nth unfolding hub_ok_def by auto
  with h' nth show ?thesis by (simp add: Broadcast_def)
qed

lemma take_drop_remove1:
  "take (length (takeWhile (\<lambda>x. x \<noteq> c) xs)) xs @ drop (Suc (length (takeWhile (\<lambda>x. x \<noteq> c) xs))) xs
     = remove1 c xs"
  by (induction xs) auto

lemma takeWhile_length_less: "length (takeWhile (\<lambda>x. x \<noteq> c) xs) < length xs \<longleftrightarrow> c \<in> set xs"
  by (induction xs) auto

lemma Unsubscribe_absent:
  assumes "ch \<notin> set (subscribers b rid)"
  shows "Unsubscribe b rid ch = Inr b"
  using assms by (simp add: Unsubscribe_def Let_def takeWhile_length_less)

lemma Unsubscribe_registered:
  assumes ok: "hub_ok b" and reg: "ch \<in> set (subscribers b rid)"
  shows "Unsubscribe b rid ch = Inr (unsubscribed b rid ch)
       \<and> hub_ok (unsubscribed b rid ch)
       \<and> ch \<notin> set (subscribers (unsubscribed b rid ch) rid)
       \<and> \<not> closed (heap b ! ch)"
proof -
  define b1 where "b1 = unsubscribed b rid ch"
  have registered: "c < length (heap b) \<and> \<not> closed (heap b ! c)" if "c \<in> set (subscribers b r)" for c r
    using ok that unfolding hub_ok_def by blast
  have dist: "distinct (subscribers b r)" for r
    using ok unfolding hub_ok_def by blast
  have disj: "set (subscribers b r) \<inter> set (subscribers b r') = {}" if "r \<noteq> r'" for r r'
    using ok that unfolding hub_ok_def by blast
  have isopen: "ch < length (heap b)" "\<not> closed (heap b ! ch)"
    using registered [OF reg] by auto
  have subs1: "set (subscribers b1 r) = set (subscribers b r) - (if r = rid then {ch} else {})" for r
    using dist by (simp add: b1_def unsubscribed_def)
  have gone: "ch \<notin> set (subscribers b1 r)" for r
    using subs1 disj [of r rid] reg by (cases "r = rid") auto
  have call: "Unsubscribe b rid ch = Inr b1"
    using reg isopen
    by (simp add: Unsubscribe_def Let_def takeWhile_length_less close_chan_def take_drop_remove1 b1_def unsubscribed_def)
  have "distinct (subscribers b1 r)" for r
    using dist by (simp add: b1_def unsubscribed_def)
  moreover have "set (subscribers b1 r) \<inter> set (subscribers b1 r') = {}" if "r \<noteq> r'" for r r'
    using disj [OF that] subs1 by auto
  moreover have "c < length (heap b1) \<and> \<not> closed (heap b1 ! c)" if "c \<in> set (subscribers b1 r)" for c r
  proof -
    from that gone have "c \<noteq> ch" by auto
    moreover from that subs1 have "c \<in> set (subscribers b r)" by auto
    ultimately show ?thesis using registered by (simp add: b1_def unsubscribed_def)
  qed
  ultimately have "hub_ok b1"
    unfolding hub_ok_def by blast
  with call gone [of rid] isopen show ?thesis
    unfolding b1_def by simp
qed


lemma deliver_to_nth:
  assumes "ch < length h"
  shows "deliver_to chs e h ! ch =
           (if ch \<in> set chs \<and> length (buf (h ! ch)) < chan_cap
            then (h ! ch)\<lparr>buf := buf (h ! ch) @ [e]\<rparr> else h ! ch)"
  using assms by (simp add: deliver_to_def nth_enumerate_eq)

lemma length_deliver_to: "length (deliver_to chs e h) = length h"
  by (simp add: deliver_to_def)

lemma send_all_deliver_to:
  assumes "distinct chs" and "\<forall>ch \<in> set chs. ch < length h \<and> \<not> closed (h ! ch)"
  shows "send_all h chs e = Inr (deliver_to chs e h)"
proof -
  from send_all_delivers [OF assms, of e] obtain h' where
    sent: "send_all h chs e = Inr h'" and len: "length h' = length h"
    and nth: "\<forall>ch < length h. h' ! ch =
                (if ch \<in> set chs \<and> length (buf (h ! ch)) < chan_cap
                 then (h ! ch)\<lparr>buf := buf (h ! ch) @ [e]\<rparr> else h ! ch)"
    by blast
  have "h' = deliver_to chs e h"
    using len nth by (simp add: list_eq_iff_nth_eq length_deliver_to deliver_to_nth)
  with sent show ?thesis by simp
qed

lemma Broadcast_deliver_to:
  assumes "hub_ok b"
  shows "Broadcast b R e = Inr (b\<lparr>heap := deliver_to (subscribers b R) e (heap b)\<rparr>)"
proof -
  from assms have "distinct (subscribers b R)"
    and "\<forall>ch \<in> set (subscribers b R). ch < length (heap b) \<and> \<not> closed (heap b ! ch)"
    by (auto simp: hub_ok_def)
  then show ?thesis
    by (simp add: Broadcast_def send_all_deliver_to)
qed

text \<open>
  C9. In a broadcaster kept by \<open>Subscribe\<close> and \<open>Unsubscribe\<close>, \<open>Broadcast(R, e)\<close>
  returns (it neither blocks nor panics) and appends \<open>e\<close> to the buffer of every channel
  registered under \<open>R\<close> that has room; a full channel of \<open>R\<close> is left as it is, and so
  is every channel registered under another retrospective. After \<open>Unsubscribe(R, ch0)\<close>
  has removed a subscriber of \<open>R\<close>, a broadcast to \<open>R\<close> goes to the remaining
  subscribers and leaves the removed channel untouched.
\<close>

theorem Broadcast_fan_out:
  assumes ok: "hub_ok b"
  shows "Broadcast b R e = Inr (b\<lparr>heap := deliver_to (subscribers b R) e (heap b)\<rparr>)
       \<and> (\<forall>ch \<in> set (subscribers b R).
            deliver_to (subscribers b R) e (heap b) ! ch =
              (if length (buf (heap b ! ch)) < chan_cap
               then (heap b ! ch)\<lparr>buf := buf (heap b ! ch) @ [e]\<rparr> else heap b ! ch))
       \<and> (\<forall>S. \<forall>ch \<in> set (subscribers b S).
            S \<noteq> R \<longrightarrow> deliver_to (subscribers b R) e (heap b) ! ch = heap b ! ch)
       \<and> (\<forall>ch0 \<in> set (subscribers b R).
            Unsubscribe b R ch0 = Inr (unsubscribed b R ch0)
          \<and> subscribers (unsubscribed b R ch0) R = remove1 ch0 (subscribers b R)
          \<and> ch0 \<notin> set (subscribers (unsubscribed b R ch0) R)
          \<and> Broadcast (unsubscribed b R ch0) R e' =
              Inr ((unsubscribed b R ch0)
                     \<lparr>heap := deliver_to (remove1 ch0 (subscribers b R)) e' (heap (unsubscribed b R ch0))\<rparr>)
          \<and> deliver_to (remove1 ch0 (subscribers b R)) e' (heap (unsubscribed b R ch0)) ! ch0
              = heap (unsubscribed b R ch0) ! ch0)"
proof -
  have registered: "ch < length (heap b)" if "ch \<in> set (subscribers b S)" for ch S
    using ok that unfolding hub_ok_def by blast
  have disj: "ch \<notin> set (subscribers b R)" if "ch \<in> set (subscribers b S)" "S \<noteq> R" for ch S
    using ok that unfolding hub_ok_def by blast
  have first: "Broadcast b R e = Inr (b\<lparr>heap := deliver_to (subscribers b R) e (heap b)\<rparr>)"
    using ok by (rule Broadcast_deliver_to)
  have reached: "\<forall>ch \<in> set (subscribers b R).
            deliver_to (subscribers b R) e (heap b) ! ch =
              (if length (buf (heap b ! ch)) < chan_cap
               then (heap b ! ch)\<lparr>buf := buf (heap b ! ch) @ [e]\<rparr> else heap b ! ch)"
    using registered by (simp add: deliver_to_nth)
  have others: "\<forall>S. \<forall>ch \<in> set (subscribers b S).
            S \<noteq> R \<longrightarrow> deliver_to (subscribers b R) e (heap b) ! ch = heap b ! ch"
    using registered disj by (simp add: deliver_to_nth)
  have after: "Unsubscribe b R ch0 = Inr (unsubscribed b R ch0)
          \<and> subscribers (unsubscribed b R ch0) R = remove1 ch0 (subscribers b R)
          \<and> ch0 \<notin> set (subscribers (unsubscribed b R ch0) R)
          \<and> Broadcast (unsubscribed b R ch0) R e' =
              Inr ((unsubscribed b R ch0)
                     \<lparr>heap := deliver_to (remove1 ch0 (subscribers b R)) e' (heap (unsubscribed b R ch0))\<rparr>)
          \<and> deliver_to (remove1 ch0 (subscribers b R)) e' (heap (unsubscribed b R ch0)) ! ch0
              = heap (unsubscribed b R ch0) ! ch0"
    if reg: "ch0 \<in> set (subscribers b R)" for ch0
  proof -
    from Unsubscribe_registered [OF ok reg]
    have un: "Unsubscribe b R ch0 = Inr (unsubscribed b R ch0)"
      and ok1: "hub_ok (unsubscribed b R ch0)"
      and gone: "ch0 \<notin> set (subscribers (unsubscribed b R ch0) R)"
      by auto
    have subs: "subscribers (unsubscribed b R ch0) R = remove1 ch0 (subscribers b R)"
      by (simp add: unsubscribed_def)
    have "ch0 < length (heap (unsubscribed b R ch0))"
      using registered [OF reg] by (simp add: unsubscribed_def)
    then have "deliver_to (remove1 ch0 (subscribers b R)) e' (heap (unsubscribed b R ch0)) ! ch0
              = heap (unsubscribed b R ch0) ! ch0"
      using gone subs by (simp add: deliver_to_nth)
    with un subs gone Broadcast_deliver_to [OF ok1, of R e'] show ?thesis
      by simp
  qed
  from first reached others after show ?thesis by blast
qed

lemma hub_ok_ex_hub: "hub_ok ex_hub"
  unfolding hub_ok_def ex_hub_def by (auto simp: nth_Cons')

theorem Broadcast_fan_out_witness:
  "Broadcast ex_hub ''R'' (ex_event 1) =
     Inr (ex_hub\<lparr>heap := [\<lparr>buf = [ex_event 1], closed = False\<rparr>, \<lparr>buf = [ex_event 1], closed = False\<rparr>,
                           \<lparr>buf = replicate 100 (ex_event 0), closed = False\<rparr>,
                           \<lparr>buf = [], closed = False\<rparr>]\<rparr>)
   \<and> Unsubscribe ex_hub ''R'' 1 = Inr (unsubscribed ex_hub ''R'' 1)
   \<and> subscribers (unsubscribed ex_hub ''R'' 1) ''R'' = [0, 2]
   \<and> Broadcast (unsubscribed ex_hub ''R'' 1) ''R'' (ex_event 2) =
     Inr ((unsubscribed ex_hub ''R'' 1)
            \<lparr>heap := [\<lparr>buf = [ex_event 2], closed = False\<rparr>, \<lparr>buf = [], closed = True\<rparr>,
                      \<lparr>buf = replicate 100 (ex_event 0), closed = False\<rparr>,
                      \<lparr>buf = [], closed = False\<rparr>]\<rparr>)"
proof -
  have present: "1 \<in> set (subscribers ex_hub ''R'')"
    by (simp add: ex_hub_def)
  have rest: "remove1 1 (subscribers ex_hub ''R'') = [0, 2]"
    by (simp add: ex_hub_def)
  have first: "deliver_to (subscribers ex_hub ''R'') (ex_event 1) (heap ex_hub) =
                 [\<lparr>buf = [ex_event 1], closed = False\<rparr>, \<lparr>buf = [ex_event 1], closed = False\<rparr>,
                  \<lparr>buf = replicate 100 (ex_event 0), closed = False\<rparr>, \<lparr>buf = [], closed = False\<rparr>]"
    by (simp add: deliver_to_def ex_hub_def chan_cap_def enumerate_eq_zip upt_rec)
  have second: "deliver_to [0, 2] (ex_event 2) (heap (unsubscribed ex_hub ''R'' 1)) =
                 [\<lparr>buf = [ex_event 2], closed = False\<rparr>, \<lparr>buf = [], closed = True\<rparr>,
                  \<lparr>buf = replicate 100 (ex_event 0), closed = False\<rparr>, \<lparr>buf = [], closed = False\<rparr>]"
    by (simp add: deliver_to_def unsubscribed_def ex_hub_def chan_cap_def enumerate_eq_zip upt_rec)
  note fan = Broadcast_fan_out [OF hub_ok_ex_hub, of "''R''" "ex_event 1" "ex_event 2"]
  from fan have "Broadcast ex_hub ''R'' (ex_event 1) =
      Inr (ex_hub\<lparr>heap := deliver_to (subscribers ex_hub ''R'') (ex_event 1) (heap ex_hub)\<rparr>)"
    by blast
  moreover from fan present have "Unsubscribe ex_hub ''R'' 1 = Inr (unsubscribed ex_hub ''R'' 1)
     \<and> subscribers (unsubscribed ex_hub ''R'' 1) ''R'' = remove1 1 (subscribers ex_hub ''R'')
     \<and> Broadcast (unsubscribed ex_hub ''R'' 1) ''R'' (ex_event 2) =
         Inr ((unsubscribed ex_hub ''R'' 1)
                \<lparr>heap := deliver_to (remove1 1 (subscribers ex_hub ''R'')) (ex_event 2)
                           (heap (unsubscribed ex_hub ''R'' 1))\<rparr>)"
    by blast
  ultimately show ?thesis
    unfolding first second rest by blast
qed

text \<open>
  C10. In every broadcaster, \<open>Unsubscribe\<close> with a channel that is not registered under
  the retrospective returns the broadcaster as it is: the registry is unchanged and no
  channel is closed. In a broadcaster kept by \<open>Subscribe\<close> and \<open>Unsubscribe\<close>, a
  registered channel was open, is removed from the registry and closed, no other channel
  changes, and a second \<open>Unsubscribe\<close> with it changes nothing.
\<close>

theorem Unsubscribe_idempotent:
  "(ch \<notin> set (subscribers b rid) \<longrightarrow> Unsubscribe b rid ch = Inr b)
   \<and> (hub_ok b \<and> ch \<in> set (subscribers b rid) \<longrightarrow>
        Unsubscribe b rid ch = Inr (unsubscribed b rid ch)
      \<and> \<not> closed (heap b ! ch)
      \<and> closed (heap (unsubscribed b rid ch) ! ch)
      \<and> (\<forall>c. c \<noteq> ch \<longrightarrow> heap (unsubscribed b rid ch) ! c = heap b ! c)
      \<and> ch \<notin> set (subscribers (unsubscribed b rid ch) rid)
      \<and> Unsubscribe (unsubscribed b rid ch) rid ch = Inr (unsubscribed b rid ch))"
proof (intro conjI impI)
  assume "ch \<notin> set (subscribers b rid)"
  then show "Unsubscribe b rid ch = Inr b" by (rule Unsubscribe_absent)
next
  assume a: "hub_ok b \<and> ch \<in> set (subscribers b rid)"
  then have ok: "hub_ok b" and reg: "ch \<in> set (subscribers b rid)" by auto
  from Unsubscribe_registered [OF ok reg]
  have un: "Unsubscribe b rid ch = Inr (unsubscribed b rid ch)"
    and gone: "ch \<notin> set (subscribers (unsubscribed b rid ch) rid)"
    and isopen: "\<not> closed (heap b ! ch)"
    by auto
  have len: "ch < length (heap b)"
    using ok reg unfolding hub_ok_def by blast
  show "Unsubscribe b rid ch = Inr (unsubscribed b rid ch)" by (rule un)
  show "\<not> closed (heap b ! ch)" by (rule isopen)
  show "closed (heap (unsubscribed b rid ch) ! ch)"
    using len by (simp add: unsubscribed_def)
  show "\<forall>c. c \<noteq> ch \<longrightarrow> heap (unsubscribed b rid ch) ! c = heap b ! c"
    by (simp add: unsubscribed_def)
  show "ch \<notin> set (subscribers (unsubscribed b rid ch) rid)" by (rule gone)
  show "Unsubscribe (unsubscribed b rid ch) rid ch = Inr (unsubscribed b rid ch)"
    using gone by (rule Unsubscribe_absent)
qed


theorem Unsubscribe_idempotent_witness:
  "Unsubscribe ex_hub ''S'' 1 = Inr ex_hub
   \<and> Unsubscribe ex_hub ''R'' 1 = Inr (unsubscribed ex_hub ''R'' 1)
   \<and> subscribers (unsubscribed ex_hub ''R'' 1) ''R'' = [0, 2]
   \<and> map closed (heap ex_hub) = [False, False, False, False]
   \<and> map closed (heap (unsubscribed ex_hub ''R'' 1)) = [False, True, False, False]
   \<and> Unsubscribe (unsubscribed ex_hub ''R'' 1) ''R'' 1 = Inr (unsubscribed ex_hub ''R'' 1)"
proof -
  have absent: "1 \<notin> set (subscribers ex_hub ''S'')" and present: "1 \<in> set (subscribers ex_hub ''R'')"
    by (simp_all add: ex_hub_def)
  from Unsubscribe_idempotent [of 1 ex_hub "''S''"] absent
  have "Unsubscribe ex_hub ''S'' 1 = Inr ex_hub" by blast
  moreover from Unsubscribe_idempotent [of 1 ex_hub "''R''"] hub_ok_ex_hub present
  have "Unsubscribe ex_hub ''R'' 1 = Inr (unsubscribed ex_hub ''R'' 1)
      \<and> Unsubscribe (unsubscribed ex_hub ''R'' 1) ''R'' 1 = Inr (unsubscribed ex_hub ''R'' 1)"
    by blast
  ultimately show ?thesis
    by (simp add: unsubscribed_def ex_hub_def)
qed


section \<open>Status transitions\<close>

lemma RetroStore_Get_update: "RetroStore_Get (AList.update k r m) k = Inr r"
  by (simp add: RetroStore_Get_def update_conv')

text \<open>
  C4. For a stored retrospective: \<open>StartVoting\<close> succeeds exactly from DRAFT or ACTIVE
  and then stores the record with status VOTING, otherwise it fails with
  \<open>InvalidStatus\<close> and returns the state as it was; \<open>StartDiscussion\<close> does the same
  from VOTING alone, to DISCUSSING; \<open>Complete\<close> succeeds from every status and stores
  the record with status COMPLETED and the completion time.
\<close>

theorem status_transitions:
  assumes "RetroStore_Get (retroStore s) rid = Inr retro" and "RetrospectiveID retro = rid"
  shows "StartVoting s rid now =
           (if Status retro = RetrospectiveStatusDraft \<or> Status retro = RetrospectiveStatusActive
            then (Inr (), s\<lparr>retroStore := AList.update rid
                     (retro\<lparr>Status := RetrospectiveStatusVoting, Updated := now\<rparr>) (retroStore s)\<rparr>)
            else (Inl \<lparr>Code = FailedPrecondition, Cause = ErrInvalidStatus\<rparr>, s))
       \<and> StartDiscussion s rid now =
           (if Status retro = RetrospectiveStatusVoting
            then (Inr (), s\<lparr>retroStore := AList.update rid
                     (retro\<lparr>Status := RetrospectiveStatusDiscussing, Updated := now\<rparr>) (retroStore s)\<rparr>)
            else (Inl \<lparr>Code = FailedPrecondition, Cause = ErrInvalidStatus\<rparr>, s))
       \<and> Complete s rid now_completed now =
           (Inr (), s\<lparr>retroStore := AList.update rid
              (retro\<lparr>Status := RetrospectiveStatusCompleted, CompletedAt := now_completed, Updated := now\<rparr>)
              (retroStore s)\<rparr>)"
  using assms
  by (auto simp: StartVoting_def StartDiscussion_def Complete_def RetroStore_Update_def)

lemma ex_state_in_Get:
  "RetroStore_Get (retroStore (ex_state_in st)) ''RETRO-1'' = Inr (ex_retro st)"
  by (simp add: ex_state_in_def ex_state_def RetroStore_Get_def)

lemma ex_retro_id: "RetrospectiveID (ex_retro st) = ''RETRO-1''"
  by (simp add: ex_retro_def)

text \<open>From DRAFT, \<open>StartDiscussion\<close> fails; from ACTIVE, \<open>StartVoting\<close> succeeds; from VOTING
  it fails; from DISCUSSING, \<open>Complete\<close> succeeds and records the time.\<close>

theorem status_transitions_witness:
  "StartDiscussion (ex_state_in RetrospectiveStatusDraft) ''RETRO-1'' 5
     = (Inl \<lparr>Code = FailedPrecondition, Cause = ErrInvalidStatus\<rparr>, ex_state_in RetrospectiveStatusDraft)
   \<and> StartVoting (ex_state_in RetrospectiveStatusActive) ''RETRO-1'' 5
     = (Inr (), ex_state_in RetrospectiveStatusVoting
                  \<lparr>retroStore := [(''RETRO-1'', (ex_retro RetrospectiveStatusVoting)\<lparr>Updated := 5\<rparr>)]\<rparr>)
   \<and> StartVoting (ex_state_in RetrospectiveStatusVoting) ''RETRO-1'' 5
     = (Inl \<lparr>Code = FailedPrecondition, Cause = ErrInvalidStatus\<rparr>, ex_state_in RetrospectiveStatusVoting)
   \<and> Complete (ex_state_in RetrospectiveStatusDiscussing) ''RETRO-1'' 5 6
     = (Inr (), ex_state_in RetrospectiveStatusDiscussing
                  \<lparr>retroStore := [(''RETRO-1'', (ex_retro RetrospectiveStatusCompleted)
                                       \<lparr>CompletedAt := 5, Updated := 6\<rparr>)]\<rparr>)"
  using status_transitions [OF ex_state_in_Get [of RetrospectiveStatusDraft] ex_retro_id,
                            where now = 5 and now_completed = 5]
        status_transitions [OF ex_state_in_Get [of RetrospectiveStatusActive] ex_retro_id,
                            where now = 5 and now_completed = 5]
        status_transitions [OF ex_state_in_Get [of RetrospectiveStatusVoting] ex_retro_id,
                            where now = 5 and now_completed = 5]
        status_transitions [OF ex_state_in_Get [of RetrospectiveStatusDiscussing] ex_retro_id,
                            where now = 6 and now_completed = 5]
  by (simp add: ex_state_in_def ex_state_def ex_retro_def)

section \<open>No event for transitions and votes\<close>

text \<open>The transitions and the two vote operations leave the broadcaster as it is.\<close>

lemma StartVoting_broadcaster: "broadcaster (snd (StartVoting s rid now)) = broadcaster s"
  by (simp add: StartVoting_def split: sum.splits)

lemma StartDiscussion_broadcaster: "broadcaster (snd (StartDiscussion s rid now)) = broadcaster s"
  by (simp add: StartDiscussion_def split: sum.splits)

lemma Complete_broadcaster: "broadcaster (snd (Complete s rid now_completed now)) = broadcaster s"
  by (simp add: Complete_def split: sum.splits)

lemma CastVote_broadcaster: "broadcaster (snd (CastVote s u rid iid vid t1 t2)) = broadcaster s"
  by (simp add: CastVote_def Let_def split: sum.splits)

text \<open>
  C5 (the code does not do this). On the active board with one subscriber,
  \<open>StartVoting\<close> and \<open>CastVote\<close> succeed, and the subscriber's channel is as empty
  afterwards as before: no \<open>StatusChanged\<close> and no \<open>VoteCast\<close> event is sent. The
  helper \<open>BroadcastStatusChanged\<close>, had it been called, would have put the event there.
\<close>

theorem transitions_and_votes_emit_nothing:
  "subscribers (broadcaster ex_state_watched) ''RETRO-1'' = [0]
   \<and> buf (heap (broadcaster ex_state_watched) ! 0) = []
   \<and> fst (StartVoting ex_state_watched ''RETRO-1'' 5) = Inr ()
   \<and> buf (heap (broadcaster (snd (StartVoting ex_state_watched ''RETRO-1'' 5))) ! 0) = []
   \<and> fst (CastVote ex_state_watched getUserIDFromContext ''RETRO-1'' ''ITEM-1'' ''VOTE-10'' 10 11) = Inr ()
   \<and> buf (heap (broadcaster (snd (CastVote ex_state_watched getUserIDFromContext
                                     ''RETRO-1'' ''ITEM-1'' ''VOTE-10'' 10 11))) ! 0) = []
   \<and> map_sum id (\<lambda>b. buf (heap b ! 0))
        (BroadcastStatusChanged (broadcaster ex_state_watched) ''RETRO-1''
           RetrospectiveStatusActive RetrospectiveStatusVoting getUserIDFromContext 5)
       = Inr [\<lparr>Event_RetrospectiveId = ''RETRO-1'', Timestamp = 5,
                Event = StatusChanged RetrospectiveStatusActive RetrospectiveStatusVoting
                          getUserIDFromContext\<rparr>]"
proof -
  have hub: "broadcaster ex_state_watched
               = \<lparr>subscribers = (\<lambda>_. [])(''RETRO-1'' := [0]), heap = [\<lparr>buf = [], closed = False\<rparr>]\<rparr>"
    by (simp add: ex_state_watched_def Subscribe_def NewEventBroadcaster_def)
  have "fst (StartVoting ex_state_watched ''RETRO-1'' 5) = Inr ()"
    by (simp add: StartVoting_def ex_state_watched_def ex_state_in_def ex_state_def
          RetroStore_Get_def ex_retro_def)
  moreover have "fst (CastVote ex_state_watched getUserIDFromContext ''RETRO-1'' ''ITEM-1'' ''VOTE-10'' 10 11) = Inr ()"
    by (simp add: CastVote_def ex_state_watched_def ex_state_in_def ex_state_def RetroStore_Get_def
          ItemStore_Get_def ex_retro_def ex_item_def GetByUserAndItem_def CountByUser_def values_of_def
          IncrementVoteCount_def)
  moreover have "map_sum id (\<lambda>b. buf (heap b ! 0))
        (BroadcastStatusChanged (broadcaster ex_state_watched) ''RETRO-1''
           RetrospectiveStatusActive RetrospectiveStatusVoting getUserIDFromContext 5)
       = Inr [\<lparr>Event_RetrospectiveId = ''RETRO-1'', Timestamp = 5,
                Event = StatusChanged RetrospectiveStatusActive RetrospectiveStatusVoting
                          getUserIDFromContext\<rparr>]"
    by (simp add: hub BroadcastStatusChanged_def Broadcast_def try_send_def chan_cap_def)
  ultimately show ?thesis
    by (simp add: StartVoting_broadcaster CastVote_broadcaster hub)
qed

section \<open>The status never moves back\<close>

lemma status_value_le_completed: "status_value st \<le> 5"
  by (cases st) auto

lemma forward_refl: "forward m m"
  by (auto simp: forward_def)

lemma forward_trans: "forward m m' \<Longrightarrow> forward m' m'' \<Longrightarrow> forward m m''"
  unfolding forward_def by (meson order_trans)

lemma store_ok_coherent: "store_ok RetrospectiveID m \<Longrightarrow> coherent m"
  unfolding store_ok_def coherent_def by (auto dest: map_of_SomeD)

text \<open>Storing a record again under its id, with the same or a later status.\<close>

lemma update_forward:
  assumes "coherent m" and "map_of m k = Some r0"
    and "RetrospectiveID r1 = RetrospectiveID r0"
    and "status_value (Status r0) \<le> status_value (Status r1)"
  shows "coherent (RetroStore_Update m r1 now) \<and> forward m (RetroStore_Update m r1 now)"
  using assms unfolding coherent_def forward_def RetroStore_Update_def
  by (auto simp: update_conv')

lemmas update_forward_intros = update_forward [THEN conjunct1] update_forward [THEN conjunct2]

lemma step_forward:
  assumes "coherent (retroStore s)" and "step s x = Inr s'"
  shows "coherent (retroStore s') \<and> forward (retroStore s) (retroStore s')"
proof (cases x)
  case (CastVoteOp u r i v t1 t2)
  then have "retroStore s' = retroStore s" using assms(2)
    by (auto simp: CastVote_def Let_def split: if_splits sum.splits)
  then show ?thesis using assms(1) by (simp add: forward_refl)
next
  case (RemoveVoteOp u r i t)
  then have "retroStore s' = retroStore s" using assms(2)
    by (auto simp: RemoveVote_def Let_def split: if_splits sum.splits)
  then show ?thesis using assms(1) by (simp add: forward_refl)
next
  case (StartVotingOp r t)
  then show ?thesis using assms
    by (auto simp: StartVoting_def RetroStore_Get_def forward_refl
             split: if_splits sum.splits option.splits intro!: update_forward_intros)
next
  case (StartDiscussionOp r t)
  then show ?thesis using assms
    by (auto simp: StartDiscussion_def RetroStore_Get_def forward_refl
             split: if_splits sum.splits option.splits intro!: update_forward_intros)
next
  case (CompleteOp r t1 t2)
  then show ?thesis using assms
    by (auto simp: Complete_def RetroStore_Get_def forward_refl status_value_le_completed
             split: if_splits sum.splits option.splits intro!: update_forward_intros)
next
  case (JoinOp u n r d a t1 t2 t3 t4)
  then show ?thesis using assms
    by (auto simp: JoinRetrospective_def RetroStore_Get_def forward_refl Let_def
             split: if_splits sum.splits option.splits intro!: update_forward_intros)
next
  case (LeaveOp u r t1 t2 t3)
  then show ?thesis using assms
    by (auto simp: LeaveRetrospective_def RetroStore_Get_def forward_refl Let_def
             split: if_splits sum.splits option.splits intro!: update_forward_intros)
next
  case (HeartbeatOp u r t)
  then show ?thesis using assms by (auto simp: Heartbeat_def forward_refl split: if_splits)
next
  case (SubscribeOp r)
  then show ?thesis using assms by (auto simp: forward_refl)
next
  case (UnsubscribeOp r ch)
  then show ?thesis using assms
    by (cases "Unsubscribe (broadcaster s) r ch") (auto simp: forward_refl)
qed

lemma run_forward:
  assumes "coherent (retroStore s)" and "run s ops = Inr s'"
  shows "coherent (retroStore s') \<and> forward (retroStore s) (retroStore s')"
  using assms
proof (induction ops arbitrary: s)
  case Nil
  then show ?case by (simp add: forward_refl)
next
  case (Cons x xs)
  from Cons.prems(2) obtain s1 where s1: "step s x = Inr s1" and rest: "run s1 xs = Inr s'"
    by (auto split: sum.splits)
  from step_forward [OF Cons.prems(1) s1]
  have "coherent (retroStore s1)" and f1: "forward (retroStore s) (retroStore s1)"
    by auto
  with Cons.IH [OF _ rest] show ?case by (blast intro: forward_trans)
qed

lemma RemoveVote_broadcaster: "broadcaster (snd (RemoveVote s u rid iid t)) = broadcaster s"
  by (simp add: RemoveVote_def Let_def split: sum.splits)

lemma Heartbeat_broadcaster: "broadcaster (snd (Heartbeat s u rid t)) = broadcaster s"
  by (simp add: Heartbeat_def)

lemma hub_ok_deliver_to:
  assumes "hub_ok b"
  shows "hub_ok (b\<lparr>heap := deliver_to chs e (heap b)\<rparr>)"
proof -
  have "closed (deliver_to chs e (heap b) ! ch) = closed (heap b ! ch)" if "ch < length (heap b)" for ch
    using that by (simp add: deliver_to_nth)
  with assms show ?thesis
    unfolding hub_ok_def by (simp add: length_deliver_to)
qed

text \<open>From a broadcaster kept by \<open>Subscribe\<close> and \<open>Unsubscribe\<close>, no operation panics, and the broadcaster stays so.\<close>

lemma JoinRetrospective_hub_ok:
  assumes "hub_ok (broadcaster s)"
  shows "\<exists>r s'. JoinRetrospective s u n rid d a t1 t2 t3 t4 = Inr (r, s') \<and> hub_ok (broadcaster s')"
  using assms hub_ok_deliver_to [OF assms]
  by (simp add: JoinRetrospective_def Let_def Broadcast_deliver_to [OF assms] split: sum.splits)

lemma LeaveRetrospective_hub_ok:
  assumes "hub_ok (broadcaster s)"
  shows "\<exists>r s'. LeaveRetrospective s u rid t1 t2 t3 = Inr (r, s') \<and> hub_ok (broadcaster s')"
  using assms hub_ok_deliver_to [OF assms]
  by (simp add: LeaveRetrospective_def Let_def Broadcast_deliver_to [OF assms] split: sum.splits)

lemma step_hub_ok:
  assumes "hub_ok (broadcaster s)"
  shows "\<exists>s'. step s x = Inr s' \<and> hub_ok (broadcaster s')"
proof (cases x)
  case (JoinOp u n r d a t1 t2 t3 t4)
  from JoinRetrospective_hub_ok [OF assms, of u n r d a t1 t2 t3 t4] JoinOp show ?thesis by auto
next
  case (LeaveOp u r t1 t2 t3)
  from LeaveRetrospective_hub_ok [OF assms, of u r t1 t2 t3] LeaveOp show ?thesis by auto
next
  case (SubscribeOp r)
  with assms show ?thesis by (simp add: hub_ok_Subscribe)
next
  case (UnsubscribeOp r ch)
  show ?thesis
  proof (cases "ch \<in> set (subscribers (broadcaster s) r)")
    case True
    from Unsubscribe_registered [OF assms True] UnsubscribeOp show ?thesis by simp
  next
    case False
    from Unsubscribe_absent [OF False] UnsubscribeOp assms show ?thesis by simp
  qed
qed (use assms in \<open>simp_all add: CastVote_broadcaster RemoveVote_broadcaster StartVoting_broadcaster
       StartDiscussion_broadcaster Complete_broadcaster Heartbeat_broadcaster\<close>)

lemma run_hub_ok:
  assumes "hub_ok (broadcaster s)"
  shows "\<exists>s'. run s ops = Inr s' \<and> hub_ok (broadcaster s')"
  using assms
proof (induction ops arbitrary: s)
  case Nil
  then show ?case by simp
next
  case (Cons x xs)
  from step_hub_ok [OF Cons.prems] obtain s1 where "step s x = Inr s1" "hub_ok (broadcaster s1)"
    by blast
  with Cons.IH [of s1] show ?case by simp
qed


text \<open>
  C8, as the claim states it, fails: \<open>Complete\<close> on the board completed at 40 succeeds
  and moves the completion time to 50.
\<close>

theorem Complete_on_completed_succeeds:
  "status_of ex_state_completed ''RETRO-1'' = Some RetrospectiveStatusCompleted
   \<and> completed_at ex_state_completed ''RETRO-1'' = Some 40
   \<and> fst (Complete ex_state_completed ''RETRO-1'' 50 51) = Inr ()
   \<and> status_of (snd (Complete ex_state_completed ''RETRO-1'' 50 51)) ''RETRO-1''
       = Some RetrospectiveStatusCompleted
   \<and> completed_at (snd (Complete ex_state_completed ''RETRO-1'' 50 51)) ''RETRO-1'' = Some 50"
  by (simp add: Complete_def ex_state_completed_def ex_state_def RetroStore_Get_def
        RetroStore_Update_def ex_retro_def status_of_def completed_at_def)

text \<open>
  C8, amended. For a stored retrospective whose status is COMPLETED, \<open>StartVoting\<close> and
  \<open>StartDiscussion\<close> fail with \<open>InvalidStatus\<close> and return the state as it was, while
  \<open>Complete\<close> succeeds, leaves the status COMPLETED and overwrites the completion time.
  And through every run of operations, a stored retrospective stays stored and its
  status is the same or a later one; a run ends early only by a panic of the
  broadcaster, which does not happen when the broadcaster is one kept by \<open>Subscribe\<close>
  and \<open>Unsubscribe\<close>.
\<close>

theorem completed_terminal_and_forward:
  assumes ok: "store_ok RetrospectiveID (retroStore s)"
    and retro: "RetroStore_Get (retroStore s) rid = Inr retro"
  shows "(Status retro = RetrospectiveStatusCompleted \<longrightarrow>
            StartVoting s rid now = (Inl \<lparr>Code = FailedPrecondition, Cause = ErrInvalidStatus\<rparr>, s)
          \<and> StartDiscussion s rid now = (Inl \<lparr>Code = FailedPrecondition, Cause = ErrInvalidStatus\<rparr>, s)
          \<and> Complete s rid now_completed now =
              (Inr (), s\<lparr>retroStore := AList.update rid
                 (retro\<lparr>CompletedAt := now_completed, Updated := now\<rparr>) (retroStore s)\<rparr>))
       \<and> (\<forall>ops s'. run s ops = Inr s' \<longrightarrow>
            (\<exists>retro'. RetroStore_Get (retroStore s') rid = Inr retro'
                     \<and> status_value (Status retro) \<le> status_value (Status retro')))
       \<and> (hub_ok (broadcaster s) \<longrightarrow> (\<forall>ops. \<exists>s'. run s ops = Inr s'))"
proof -
  have coh: "coherent (retroStore s)"
    using ok by (rule store_ok_coherent)
  from retro have stored: "map_of (retroStore s) rid = Some retro"
    by (simp add: RetroStore_Get_def split: option.splits)
  with coh have id: "RetrospectiveID retro = rid"
    by (simp add: coherent_def)
  have terminal: "Status retro = RetrospectiveStatusCompleted \<longrightarrow>
            StartVoting s rid now = (Inl \<lparr>Code = FailedPrecondition, Cause = ErrInvalidStatus\<rparr>, s)
          \<and> StartDiscussion s rid now = (Inl \<lparr>Code = FailedPrecondition, Cause = ErrInvalidStatus\<rparr>, s)
          \<and> Complete s rid now_completed now =
              (Inr (), s\<lparr>retroStore := AList.update rid
                 (retro\<lparr>CompletedAt := now_completed, Updated := now\<rparr>) (retroStore s)\<rparr>)"
  proof
    assume completed: "Status retro = RetrospectiveStatusCompleted"
    then have same: "retro\<lparr>Status := RetrospectiveStatusCompleted\<rparr> = retro"
      by simp
    from completed retro id show "StartVoting s rid now = (Inl \<lparr>Code = FailedPrecondition, Cause = ErrInvalidStatus\<rparr>, s)
          \<and> StartDiscussion s rid now = (Inl \<lparr>Code = FailedPrecondition, Cause = ErrInvalidStatus\<rparr>, s)
          \<and> Complete s rid now_completed now =
              (Inr (), s\<lparr>retroStore := AList.update rid
                 (retro\<lparr>CompletedAt := now_completed, Updated := now\<rparr>) (retroStore s)\<rparr>)"
      by (simp add: StartVoting_def StartDiscussion_def Complete_def RetroStore_Update_def same)
  qed
  have "\<exists>retro'. RetroStore_Get (retroStore s') rid = Inr retro'
          \<and> status_value (Status retro) \<le> status_value (Status retro')"
    if "run s ops = Inr s'" for ops s'
  proof -
    from run_forward [OF coh that] have "forward (retroStore s) (retroStore s')" by simp
    with stored obtain retro' where "map_of (retroStore s') rid = Some retro'"
      and "status_value (Status retro) \<le> status_value (Status retro')"
      unfolding forward_def by blast
    then show ?thesis
      by (auto simp: RetroStore_Get_def)
  qed
  moreover have "hub_ok (broadcaster s) \<longrightarrow> (\<forall>ops. \<exists>s'. run s ops = Inr s')"
    using run_hub_ok by blast
  ultimately show ?thesis using terminal by blast
qed

lemma ex_state_in_ok: "store_ok RetrospectiveID (retroStore (ex_state_in st))"
  by (simp add: store_ok_def ex_state_in_def ex_state_def ex_retro_def)

theorem completed_terminal_and_forward_witness:
  "StartVoting (ex_state_in RetrospectiveStatusCompleted) ''RETRO-1'' 50
     = (Inl \<lparr>Code = FailedPrecondition, Cause = ErrInvalidStatus\<rparr>, ex_state_in RetrospectiveStatusCompleted)
   \<and> StartDiscussion (ex_state_in RetrospectiveStatusCompleted) ''RETRO-1'' 50
     = (Inl \<lparr>Code = FailedPrecondition, Cause = ErrInvalidStatus\<rparr>, ex_state_in RetrospectiveStatusCompleted)
   \<and> fst (Complete (ex_state_in RetrospectiveStatusCompleted) ''RETRO-1'' 50 51) = Inr ()
   \<and> map_sum id (\<lambda>s'. status_of s' ''RETRO-1'')
        (run (ex_state_in RetrospectiveStatusDraft)
           [StartVotingOp ''RETRO-1'' 5, StartDiscussionOp ''RETRO-1'' 6, StartVotingOp ''RETRO-1'' 7])
       = Inr (Some RetrospectiveStatusDiscussing)
   \<and> status_value RetrospectiveStatusDraft \<le> status_value RetrospectiveStatusDiscussing"
proof -
  let ?ops = "[StartVotingOp ''RETRO-1'' 5, StartDiscussionOp ''RETRO-1'' 6, StartVotingOp ''RETRO-1'' 7]"
  let ?end = "(ex_state_in RetrospectiveStatusDraft)
                \<lparr>retroStore := [(''RETRO-1'', (ex_retro RetrospectiveStatusDiscussing)\<lparr>Updated := 6\<rparr>)]\<rparr>"
  have ran: "run (ex_state_in RetrospectiveStatusDraft) ?ops = Inr ?end"
    by (simp add: StartVoting_def StartDiscussion_def ex_state_in_def ex_state_def RetroStore_Get_def
          RetroStore_Update_def ex_retro_def)
  have "Status (ex_retro RetrospectiveStatusCompleted) = RetrospectiveStatusCompleted"
    by (simp add: ex_retro_def)
  with completed_terminal_and_forward [OF ex_state_in_ok ex_state_in_Get,
          of RetrospectiveStatusCompleted 50 50]
  have terminal: "StartVoting (ex_state_in RetrospectiveStatusCompleted) ''RETRO-1'' 50
     = (Inl \<lparr>Code = FailedPrecondition, Cause = ErrInvalidStatus\<rparr>, ex_state_in RetrospectiveStatusCompleted)
   \<and> StartDiscussion (ex_state_in RetrospectiveStatusCompleted) ''RETRO-1'' 50
     = (Inl \<lparr>Code = FailedPrecondition, Cause = ErrInvalidStatus\<rparr>, ex_state_in RetrospectiveStatusCompleted)"
    by simp
  have "fst (Complete (ex_state_in RetrospectiveStatusCompleted) ''RETRO-1'' 50 51) = Inr ()"
    by (simp add: Complete_def ex_state_in_Get)
  moreover from completed_terminal_and_forward [OF ex_state_in_ok ex_state_in_Get,
          of RetrospectiveStatusDraft 0 0] ran
  have "\<exists>retro'. RetroStore_Get (retroStore ?end) ''RETRO-1'' = Inr retro'
           \<and> status_value (Status (ex_retro RetrospectiveStatusDraft)) \<le> status_value (Status retro')"
    by blast
  then have "status_value RetrospectiveStatusDraft \<le> status_value RetrospectiveStatusDiscussing"
    by (simp add: RetroStore_Get_def ex_retro_def)
  moreover have "status_of ?end ''RETRO-1'' = Some RetrospectiveStatusDiscussing"
    by (simp add: status_of_def ex_retro_def)
  ultimately show ?thesis using terminal ran by simp
qed


section \<open>Presence\<close>

lemma ex_present_values:
  "retroStore ex_state_present = [(''RETRO-1'', ex_retro RetrospectiveStatusActive)]"
  "participantStore ex_state_present = [(''RETRO-1:bob'', ex_bob)]"
  "broadcaster ex_state_present
     = \<lparr>subscribers = (\<lambda>_. [])(''RETRO-1'' := [0]), heap = [\<lparr>buf = [], closed = False\<rparr>]\<rparr>"
  by (simp_all add: ex_state_present_def ex_state_watched_def ex_state_in_def ex_state_def
        Subscribe_def NewEventBroadcaster_def)

text \<open>
  C7, as the claim states it, fails: bob joined at the instant 5 and is present; when he
  joins again at 50, the stored record says he joined at 50.
\<close>

theorem Join_resets_joined_at:
  "joined_at ex_state_present ''RETRO-1'' ''bob'' = Some 5
   \<and> JoinRetrospective ex_state_present ''bob'' ''Bob'' ''RETRO-1'' [] [] 50 51 52 53 =
       Inr (Inr \<lparr>Presence = convertPresenceInfo [ex_bob\<lparr>JoinedAt := 50, LastActive := 51\<rparr>],
                 CurrentParticipant = convertVstoreParticipantToPb (ex_bob\<lparr>JoinedAt := 50, LastActive := 51\<rparr>)\<rparr>,
            ex_state_present
              \<lparr>participantStore := [(''RETRO-1:bob'', ex_bob\<lparr>JoinedAt := 50, LastActive := 51\<rparr>)],
                broadcaster := (broadcaster ex_state_present)
                  \<lparr>heap := [\<lparr>buf = [\<lparr>Event_RetrospectiveId = ''RETRO-1'', Timestamp = 52,
                                      Event = ParticipantJoined
                                        (convertVstoreParticipantToPb (ex_bob\<lparr>JoinedAt := 50, LastActive := 51\<rparr>)) 1\<rparr>],
                             closed = False\<rparr>]\<rparr>,
                retroStore := [(''RETRO-1'', (ex_retro RetrospectiveStatusActive)
                                                \<lparr>ParticipantCount := 1, Updated := 53\<rparr>)]\<rparr>)
   \<and> joined_at (ex_state_present
         \<lparr>participantStore := [(''RETRO-1:bob'', ex_bob\<lparr>JoinedAt := 50, LastActive := 51\<rparr>)]\<rparr>)
        ''RETRO-1'' ''bob'' = Some 50"
  by (simp add: joined_at_def ex_present_values JoinRetrospective_def RetroStore_Get_def
        ParticipantStore_Join_def ParticipantStore_ListByRetrospective_def values_of_def
        Broadcast_def try_send_def chan_cap_def RetroStore_Update_def ex_bob_def ex_retro_def Let_def)

lemma ParticipantStore_Get_update:
  "ParticipantStore_Get (AList.update (rid @ '':'' @ uid) p m) rid uid = Inr p"
  by (simp add: ParticipantStore_Get_def update_conv')

lemma ListByRetrospective_online:
  "ParticipantStore_ListByRetrospective m rid = online_participants rid m"
  by (induction m) (auto simp: ParticipantStore_ListByRetrospective_def values_of_def)

lemma length_online_participants: "length (online_participants rid m) = online_count rid m"
  by (induction m) auto

text \<open>With one entry per key, the count is the number of keys whose record is online in the retrospective.\<close>

lemma online_count_card:
  assumes "distinct (map fst m)"
  shows "online_count rid m
           = card {k. \<exists>p. map_of m k = Some p \<and> Participant_RetrospectiveID p = rid \<and> IsOnline p}"
  using assms
proof (induction m)
  case Nil
  then show ?case by simp
next
  case (Cons kp m)
  obtain k p where kp: "kp = (k, p)" by (cases kp)
  let ?S = "{k'. \<exists>q. map_of m k' = Some q \<and> Participant_RetrospectiveID q = rid \<and> IsOnline q}"
  from Cons.prems kp have fresh: "k \<notin> fst ` set m" and dist: "distinct (map fst m)" by auto
  then have none: "map_of m k = None" by (simp add: map_of_eq_None_iff)
  have fin: "finite ?S"
  proof (rule finite_subset)
    show "?S \<subseteq> fst ` set m" by (auto dest: map_of_SomeD intro: rev_image_eqI)
  qed simp
  have notin: "k \<notin> ?S" using none by simp
  have "{k'. \<exists>q. map_of (kp # m) k' = Some q \<and> Participant_RetrospectiveID q = rid \<and> IsOnline q}
          = (if Participant_RetrospectiveID p = rid \<and> IsOnline p then insert k ?S else ?S)"
    using none kp by auto
  with fin notin Cons.IH [OF dist] kp show ?case by simp
qed


text \<open>
  C7, amended. \<open>JoinRetrospective\<close> on a stored retrospective, with a broadcaster kept by
  \<open>Subscribe\<close> and \<open>Unsubscribe\<close>, succeeds and files the record \<open>p\<close> under
  (retrospective, user), new or in place of the one that was there: online, with
  \<open>joinedAt\<close> and \<open>lastActive\<close> the clock readings of this call, and with the role
  FACILITATOR exactly when the user is the retrospective's facilitator, else MEMBER. The
  response lists the participants of the retrospective that are online after the join,
  and the participant count of the response, of the \<open>ParticipantJoined\<close> event delivered
  to the retrospective's subscribers and of the retrospective record is their number:
  offline records and records of other retrospectives are not counted. With one entry
  per key, that number is the number of keys whose record is online in the retrospective.
\<close>

theorem JoinRetrospective_presence:
  assumes rid: "rid \<noteq> []"
    and retro: "RetroStore_Get (retroStore s) rid = Inr retro"
    and hub: "hub_ok (broadcaster s)"
    and p: "p = \<lparr>ParticipantID = rid @ '':'' @ uid, Participant_RetrospectiveID = rid, UserID = uid,
                   DisplayName = (if display_name = [] then userName else display_name),
                   AvatarURL = avatar_url,
                   Role = (if FacilitatorID retro = uid then ParticipantRoleFacilitator
                           else ParticipantRoleMember),
                   IsOnline = True, JoinedAt = now_joined, LastActive = now_active\<rparr>"
    and store': "store' = AList.update (rid @ '':'' @ uid) p (participantStore s)"
  shows "JoinRetrospective s uid userName rid display_name avatar_url
           now_joined now_active now_event now_updated =
         Inr (Inr \<lparr>Presence = convertPresenceInfo (online_participants rid store'),
                   CurrentParticipant = convertVstoreParticipantToPb p\<rparr>,
              s\<lparr>participantStore := store',
                broadcaster := (broadcaster s)
                  \<lparr>heap := deliver_to (subscribers (broadcaster s) rid)
                             \<lparr>Event_RetrospectiveId = rid, Timestamp = now_event,
                              Event = ParticipantJoined (convertVstoreParticipantToPb p)
                                        (word_of_nat (online_count rid store'))\<rparr>
                             (heap (broadcaster s))\<rparr>,
                retroStore := RetroStore_Update (retroStore s)
                                (retro\<lparr>ParticipantCount := word_of_nat (online_count rid store')\<rparr>)
                                now_updated\<rparr>)
       \<and> ParticipantStore_Get store' rid uid = Inr p
       \<and> Presence_ParticipantCount (convertPresenceInfo (online_participants rid store'))
           = word_of_nat (online_count rid store')
       \<and> (distinct (map fst (participantStore s)) \<longrightarrow>
            online_count rid store'
              = card {k. \<exists>q. map_of store' k = Some q \<and> Participant_RetrospectiveID q = rid \<and> IsOnline q})"
proof -
  have listed: "ParticipantStore_ListByRetrospective store' rid = online_participants rid store'"
    by (rule ListByRetrospective_online)
  have "JoinRetrospective s uid userName rid display_name avatar_url
           now_joined now_active now_event now_updated =
         Inr (Inr \<lparr>Presence = convertPresenceInfo (online_participants rid store'),
                   CurrentParticipant = convertVstoreParticipantToPb p\<rparr>,
              s\<lparr>participantStore := store',
                broadcaster := (broadcaster s)
                  \<lparr>heap := deliver_to (subscribers (broadcaster s) rid)
                             \<lparr>Event_RetrospectiveId = rid, Timestamp = now_event,
                              Event = ParticipantJoined (convertVstoreParticipantToPb p)
                                        (word_of_nat (online_count rid store'))\<rparr>
                             (heap (broadcaster s))\<rparr>,
                retroStore := RetroStore_Update (retroStore s)
                                (retro\<lparr>ParticipantCount := word_of_nat (online_count rid store')\<rparr>)
                                now_updated\<rparr>)"
    using rid retro listed
    by (simp add: JoinRetrospective_def Let_def ParticipantStore_Join_def p store'
          Broadcast_deliver_to [OF hub] length_online_participants)
  moreover have "ParticipantStore_Get store' rid uid = Inr p"
    unfolding store' by (rule ParticipantStore_Get_update)
  moreover have "Presence_ParticipantCount (convertPresenceInfo (online_participants rid store'))
                   = word_of_nat (online_count rid store')"
    by (simp add: convertPresenceInfo_def length_online_participants)
  moreover have "distinct (map fst (participantStore s)) \<longrightarrow>
            online_count rid store'
              = card {k. \<exists>q. map_of store' k = Some q \<and> Participant_RetrospectiveID q = rid \<and> IsOnline q}"
  proof
    assume "distinct (map fst (participantStore s))"
    then have "distinct (map fst store')"
      unfolding store' by (rule distinct_update)
    then show "online_count rid store'
              = card {k. \<exists>q. map_of store' k = Some q \<and> Participant_RetrospectiveID q = rid \<and> IsOnline q}"
      by (rule online_count_card)
  qed
  ultimately show ?thesis by blast
qed

lemma ex_crowd_values:
  "retroStore ex_state_crowd = [(''RETRO-1'', ex_retro RetrospectiveStatusActive)]"
  "participantStore ex_state_crowd
     = [(''RETRO-1:bob'', ex_bob), (''RETRO-1:carol'', ex_carol), (''RETRO-2:dave'', ex_dave)]"
  "broadcaster ex_state_crowd
     = \<lparr>subscribers = (\<lambda>_. [])(''RETRO-1'' := [0]), heap = [\<lparr>buf = [], closed = False\<rparr>]\<rparr>"
  by (simp_all add: ex_state_crowd_def ex_state_watched_def ex_state_in_def ex_state_def
        Subscribe_def NewEventBroadcaster_def)

lemma hub_ok_ex_state_crowd: "hub_ok (broadcaster ex_state_crowd)"
  by (simp add: ex_state_crowd_def ex_state_watched_def hub_ok_Subscribe hub_ok_New)

text \<open>
  ann, the facilitator, joins RETRO-1 while bob is online there, carol is offline there
  and dave is online elsewhere: four records are stored, three of them in RETRO-1, and
  the count is 2.
\<close>

theorem JoinRetrospective_presence_witness:
  "map_sum id
     (map_prod (map_sum id (\<lambda>r. (Presence_ParticipantCount (Presence r),
                                    map pb_UserId (Participants (Presence r)),
                                    pb_Role (CurrentParticipant r),
                                    pb_JoinedAt (CurrentParticipant r), pb_IsOnline (CurrentParticipant r))))
               (\<lambda>s'. (joined_at s' ''RETRO-1'' ''ann'', joined_at s' ''RETRO-1'' ''bob'',
                       map fst (participantStore s'),
                       map_option ParticipantCount (map_of (retroStore s') ''RETRO-1''),
                       map buf (heap (broadcaster s')))))
     (JoinRetrospective ex_state_crowd ''ann'' ''Ann'' ''RETRO-1'' [] [] 50 51 52 53)
   = Inr (Inr (2, [''bob'', ''ann''], ParticipantRoleFacilitator, 50, True),
          (Some 50, Some 5,
           [''RETRO-1:bob'', ''RETRO-1:carol'', ''RETRO-2:dave'', ''RETRO-1:ann''],
           Some 2,
           [ [\<lparr>Event_RetrospectiveId = ''RETRO-1'', Timestamp = 52,
              Event = ParticipantJoined
                        \<lparr>pb_UserId = ''ann'', pb_DisplayName = ''Ann'', pb_AvatarUrl = [], pb_JoinedAt = 50,
                         pb_Role = ParticipantRoleFacilitator, pb_LastActive = 51, pb_IsOnline = True\<rparr> 2\<rparr>] ]))"
proof -
  let ?ann = "\<lparr>ParticipantID = ''RETRO-1:ann'', Participant_RetrospectiveID = ''RETRO-1'',
                UserID = ''ann'', DisplayName = ''Ann'', AvatarURL = [],
                Role = ParticipantRoleFacilitator, IsOnline = True, JoinedAt = 50, LastActive = 51\<rparr>"
  let ?store = "[(''RETRO-1:bob'', ex_bob), (''RETRO-1:carol'', ex_carol), (''RETRO-2:dave'', ex_dave),
                 (''RETRO-1:ann'', ?ann)]"
  have retro: "RetroStore_Get (retroStore ex_state_crowd) ''RETRO-1'' = Inr (ex_retro RetrospectiveStatusActive)"
    by (simp add: ex_crowd_values RetroStore_Get_def)
  have rid: "''RETRO-1'' \<noteq> []" by simp
  have p: "?ann = \<lparr>ParticipantID = ''RETRO-1'' @ '':'' @ ''ann'', Participant_RetrospectiveID = ''RETRO-1'',
                UserID = ''ann'', DisplayName = (if [] = [] then ''Ann'' else []), AvatarURL = [],
                Role = (if FacilitatorID (ex_retro RetrospectiveStatusActive) = ''ann''
                        then ParticipantRoleFacilitator else ParticipantRoleMember),
                IsOnline = True, JoinedAt = 50, LastActive = 51\<rparr>"
    by (simp add: ex_retro_def)
  have store: "?store = AList.update (''RETRO-1'' @ '':'' @ ''ann'') ?ann (participantStore ex_state_crowd)"
    by (simp add: ex_crowd_values)
  have online: "online_participants ''RETRO-1'' ?store = [ex_bob, ?ann]"
    and count: "online_count ''RETRO-1'' ?store = 2"
    by (simp_all add: ex_bob_def ex_carol_def ex_dave_def)
  have delivered: "deliver_to (subscribers (broadcaster ex_state_crowd) ''RETRO-1'')
          \<lparr>Event_RetrospectiveId = ''RETRO-1'', Timestamp = 52,
           Event = ParticipantJoined (convertVstoreParticipantToPb ?ann) (word_of_nat 2)\<rparr>
          (heap (broadcaster ex_state_crowd))
      = [\<lparr>buf = [\<lparr>Event_RetrospectiveId = ''RETRO-1'', Timestamp = 52,
                    Event = ParticipantJoined (convertVstoreParticipantToPb ?ann) 2\<rparr>], closed = False\<rparr>]"
    by (simp add: ex_crowd_values deliver_to_def chan_cap_def)
  from JoinRetrospective_presence [OF rid retro hub_ok_ex_state_crowd p store,
      where now_event = 52 and now_updated = 53]
  have "JoinRetrospective ex_state_crowd ''ann'' ''Ann'' ''RETRO-1'' [] [] 50 51 52 53 =
         Inr (Inr \<lparr>Presence = convertPresenceInfo [ex_bob, ?ann],
                   CurrentParticipant = convertVstoreParticipantToPb ?ann\<rparr>,
              ex_state_crowd\<lparr>participantStore := ?store,
                broadcaster := (broadcaster ex_state_crowd)
                  \<lparr>heap := [\<lparr>buf = [\<lparr>Event_RetrospectiveId = ''RETRO-1'', Timestamp = 52,
                    Event = ParticipantJoined (convertVstoreParticipantToPb ?ann) 2\<rparr>], closed = False\<rparr>]\<rparr>,
                retroStore := RetroStore_Update (retroStore ex_state_crowd)
                                ((ex_retro RetrospectiveStatusActive)\<lparr>ParticipantCount := 2\<rparr>) 53\<rparr>)"
    unfolding online count delivered by simp
  then show ?thesis
    by (simp add: convertPresenceInfo_def convertVstoreParticipantToPb_def joined_at_def ex_bob_def
          ex_crowd_values RetroStore_Update_def ex_retro_def)
qed


section \<open>CastVote followed by RemoveVote\<close>

lemma update_fresh_append:
  assumes "k \<notin> fst ` set m"
  shows "AList.update k v m = m @ [(k, v)]"
  using assms by (induction m) auto

text \<open>A successful \<open>CastVote\<close> with a vote id not yet in the store adds one to the user's count.\<close>

lemma CastVote_counts:
  assumes "CastVote s uid rid iid voteID now_created now_updated = (Inr (), s1)"
    and "voteID \<notin> fst ` set (voteStore s)"
  shows "CountByUser (voteStore s1) rid uid = Suc (CountByUser (voteStore s) rid uid)"
proof -
  from CastVote_success [OF assms(1)]
  have "voteStore s1 = AList.update voteID \<lparr>VoteID = voteID, Vote_RetrospectiveID = rid,
          Vote_ItemID = iid, Vote_UserID = uid, Vote_Created = now_created\<rparr> (voteStore s)"
    by auto
  then show ?thesis
    by (simp add: update_fresh_append [OF assms(2)] CountByUser_def values_of_def)
qed




subsection \<open>The ids minted from the clock\<close>










subsection \<open>The vote store along a sequence of operations\<close>











lemma ex_once_values:
  "retroStore ex_state_once = [(''RETRO-1'', ex_retro RetrospectiveStatusVoting)]"
  "voteStore ex_state_once = [(''VOTE-10'', ex_vote ''VOTE-10'' ''ITEM-1'' 10)]"
  "itemStore ex_state_once = [(''ITEM-1'', (ex_item ''ITEM-1'' 1)\<lparr>Item_Updated := 11\<rparr>),
                             (''ITEM-2'', ex_item ''ITEM-2'' 0), (''ITEM-3'', ex_item ''ITEM-3'' 0)]"
  by (simp_all add: ex_state_once_def ex_state_def)





text \<open>
  The readings have to differ. When the call that mints the id reads the clock value that
  minted the id of a stored vote, as under a clock that stands still, \<open>Create\<close> puts the
  new vote in the place of the stored one: the user holds one vote, for the first card,
  stored as VOTE-10; a \<open>CastVote\<close> for the second card that mints VOTE-10 again succeeds
  and replaces that record, the \<open>RemoveVote\<close> for the second card succeeds and deletes
  it, and \<open>GetUserVotes\<close> reports 1 vote cast and 1 remaining before the pair, 0 and 2
  after it.
\<close>

lemma repeated_reading_replaces_vote:
  "reported_votes ex_state_once ''RETRO-1'' getUserIDFromContext = Some (1, 1)
   \<and> fst (CastVote ex_state_once getUserIDFromContext ''RETRO-1'' ''ITEM-2'' ''VOTE-10'' 10 11) = Inr ()
   \<and> fst (RemoveVote (snd (CastVote ex_state_once getUserIDFromContext ''RETRO-1'' ''ITEM-2'' ''VOTE-10'' 10 11))
             getUserIDFromContext ''RETRO-1'' ''ITEM-2'' 12) = Inr ()
   \<and> reported_votes
        (snd (RemoveVote (snd (CastVote ex_state_once getUserIDFromContext ''RETRO-1'' ''ITEM-2'' ''VOTE-10'' 10 11))
                getUserIDFromContext ''RETRO-1'' ''ITEM-2'' 12))
        ''RETRO-1'' getUserIDFromContext = Some (0, 2)"
proof -
  have cast: "CastVote ex_state_once getUserIDFromContext ''RETRO-1'' ''ITEM-2'' ''VOTE-10'' 10 11 =
      (Inr (), ex_state_once
         \<lparr>voteStore := [(''VOTE-10'', ex_vote ''VOTE-10'' ''ITEM-2'' 10)],
           itemStore := [(''ITEM-1'', (ex_item ''ITEM-1'' 1)\<lparr>Item_Updated := 11\<rparr>),
                         (''ITEM-2'', (ex_item ''ITEM-2'' 1)\<lparr>Item_Updated := 11\<rparr>),
                         (''ITEM-3'', ex_item ''ITEM-3'' 0)]\<rparr>)"
    by (simp add: CastVote_def ex_once_values RetroStore_Get_def ItemStore_Get_def
          ex_retro_def ex_item_def ex_vote_def GetByUserAndItem_def CountByUser_def values_of_def
          IncrementVoteCount_def VoteStore_Create_def)
  have remove: "RemoveVote (ex_state_once
         \<lparr>voteStore := [(''VOTE-10'', ex_vote ''VOTE-10'' ''ITEM-2'' 10)],
           itemStore := [(''ITEM-1'', (ex_item ''ITEM-1'' 1)\<lparr>Item_Updated := 11\<rparr>),
                         (''ITEM-2'', (ex_item ''ITEM-2'' 1)\<lparr>Item_Updated := 11\<rparr>),
                         (''ITEM-3'', ex_item ''ITEM-3'' 0)]\<rparr>)
        getUserIDFromContext ''RETRO-1'' ''ITEM-2'' 12 =
      (Inr (), ex_state_once
         \<lparr>voteStore := [],
           itemStore := [(''ITEM-1'', (ex_item ''ITEM-1'' 1)\<lparr>Item_Updated := 11\<rparr>),
                         (''ITEM-2'', (ex_item ''ITEM-2'' 0)\<lparr>Item_Updated := 12\<rparr>),
                         (''ITEM-3'', ex_item ''ITEM-3'' 0)]\<rparr>)"
    by (simp add: RemoveVote_def ex_vote_def GetByUserAndItem_def values_of_def VoteStore_Delete_def
          DecrementVoteCount_def ex_item_def)
  have before: "reported_votes ex_state_once ''RETRO-1'' getUserIDFromContext = Some (1, 1)"
    by (simp add: reported_votes_def GetUserVotes_def ex_once_values RetroStore_Get_def ListByUser_def
          values_of_def ex_vote_def ex_retro_def)
  have after: "reported_votes (ex_state_once
         \<lparr>voteStore := [],
           itemStore := [(''ITEM-1'', (ex_item ''ITEM-1'' 1)\<lparr>Item_Updated := 11\<rparr>),
                         (''ITEM-2'', (ex_item ''ITEM-2'' 0)\<lparr>Item_Updated := 12\<rparr>),
                         (''ITEM-3'', ex_item ''ITEM-3'' 0)]\<rparr>) ''RETRO-1'' getUserIDFromContext = Some (0, 2)"
    by (simp add: reported_votes_def GetUserVotes_def ex_once_values RetroStore_Get_def ListByUser_def
          values_of_def ex_retro_def)
  show ?thesis
    by (simp add: cast remove before after)
qed

end
